theory Spec2Isabelle
  imports Complex_Main "HOL-Library.Word"
begin

section \<open>JavaScript values\<close>

text \<open>
  Tool-call identifiers, names and arguments are typed \<open>any\<close> in the components, so they
  are modelled as JSON values. Numbers are reals: every JSON number and every Float32
  sample is a rational, and NaN cannot occur in a JSON payload. \<open>JObject\<close> stands for any
  array or object; like every object it is truthy.
\<close>

datatype jsval = JUndefined | JNull | JBool bool | JNum real | JStr string | JObject

fun truthy :: "jsval \<Rightarrow> bool" where
  "truthy JUndefined = False"
| "truthy JNull = False"
| "truthy (JBool b) = b"
| "truthy (JNum r) = (r \<noteq> 0)"
| "truthy (JStr s) = (s \<noteq> [])"
| "truthy JObject = True"

text \<open>The operator \<open>a || b\<close>.\<close>

definition js_or :: "jsval \<Rightarrow> jsval \<Rightarrow> jsval" where
  "js_or a b = (if truthy a then a else b)"

text \<open>An argument object is a list of key/value pairs; reading an absent key gives \<open>undefined\<close>.\<close>

type_synonym jsobject = "(string \<times> jsval) list"

definition js_get :: "jsobject \<Rightarrow> string \<Rightarrow> jsval" where
  "js_get obj k = (case map_of obj k of None \<Rightarrow> JUndefined | Some v \<Rightarrow> v)"

text \<open>
  Faults of the handlers. An \<open>async\<close> handler that throws rejects its promise: the handler
  stops where it threw, what it did before stays done, and later events are still handled.
\<close>

datatype fault = InvalidCharacterError | RangeError | NotSupportedError | TypeError

section \<open>Base64: \<open>btoa\<close> and \<open>atob\<close>\<close>

text \<open>
  The browser's \<open>btoa\<close> is RFC 4648 base64 with padding; \<open>atob\<close> is the forgiving decoder
  of the platform: ASCII whitespace is dropped, one or two trailing \<open>=\<close> are removed when
  the length is a multiple of four, a length of one modulo four or a character outside the
  alphabet fails with InvalidCharacterError, and leftover bits of a short last group are
  discarded. A binary string is a list of characters with codes 0 to 255.
\<close>

definition b64_alphabet :: string where
  "b64_alphabet = ''ABCDEFGHIJKLMNOPQRSTUVWXYZabcdefghijklmnopqrstuvwxyz0123456789+/''"

definition b64_char :: "nat \<Rightarrow> char" where
  "b64_char n = b64_alphabet ! n"

fun index_of :: "'a list \<Rightarrow> 'a \<Rightarrow> nat option" where
  "index_of [] c = None"
| "index_of (x # xs) c = (if x = c then Some 0 else map_option Suc (index_of xs c))"

fun btoa_groups :: "nat list \<Rightarrow> string" where
  "btoa_groups [] = []"
| "btoa_groups [a] = [b64_char (a div 4), b64_char ((a mod 4) * 16), CHR ''='', CHR ''='']"
| "btoa_groups [a, b] =
     [b64_char (a div 4), b64_char ((a mod 4) * 16 + b div 16), b64_char ((b mod 16) * 4), CHR ''='']"
| "btoa_groups (a # b # c # rest) =
     [b64_char (a div 4), b64_char ((a mod 4) * 16 + b div 16),
      b64_char ((b mod 16) * 4 + c div 64), b64_char (c mod 64)] @ btoa_groups rest"

definition btoa :: "string \<Rightarrow> string" where
  "btoa binary = btoa_groups (map of_char binary)"

definition ascii_whitespace :: "char \<Rightarrow> bool" where
  "ascii_whitespace c = (of_char c \<in> {9, 10, 12, 13, 32 :: nat})"

definition strip_padding :: "string \<Rightarrow> string" where
  "strip_padding s =
     (if length s mod 4 = 0 \<and> s \<noteq> [] \<and> last s = CHR ''='' then
        (if butlast s \<noteq> [] \<and> last (butlast s) = CHR ''='' then butlast (butlast s)
         else butlast s)
      else s)"

fun atob_groups :: "nat list \<Rightarrow> nat list" where
  "atob_groups (s1 # s2 # s3 # s4 # rest) =
     [s1 * 4 + s2 div 16, (s2 mod 16) * 16 + s3 div 4, (s3 mod 4) * 64 + s4] @ atob_groups rest"
| "atob_groups [s1, s2, s3] = [s1 * 4 + s2 div 16, (s2 mod 16) * 16 + s3 div 4]"
| "atob_groups [s1, s2] = [s1 * 4 + s2 div 16]"
| "atob_groups _ = []"

definition atob :: "string \<Rightarrow> fault + string" where
  "atob s =
     (let d = strip_padding (filter (\<lambda>c. \<not> ascii_whitespace c) s) in
      if length d mod 4 = 1 then Inl InvalidCharacterError
      else (case those (map (index_of b64_alphabet) d) of
              None \<Rightarrow> Inl InvalidCharacterError
            | Some sextets \<Rightarrow> Inr (map char_of (atob_groups sextets))))"

section \<open>16-bit PCM conversion\<close>

type_synonym byte = "8 word"
type_synonym int16 = "16 word"

text \<open>
  Storing a number into an \<open>Int16Array\<close> applies ToInt16: truncate towards zero, then keep
  the low 16 bits. \<open>data[i] * 32768\<close> is exact (a power of two times a Float32).
\<close>

definition js_trunc :: "real \<Rightarrow> int" where
  "js_trunc x = (if 0 \<le> x then \<lfloor>x\<rfloor> else \<lceil>x\<rceil>)"

definition ToInt16 :: "real \<Rightarrow> int16" where
  "ToInt16 x = word_of_int (js_trunc x)"

text \<open>\<open>new Uint8Array(int16.buffer)\<close>: each element as two bytes, low byte first.\<close>

definition int16_bytes :: "int16 \<Rightarrow> byte list" where
  "int16_bytes w = [word_of_nat (unat w mod 256), word_of_nat (unat w div 256)]"

definition Uint8Array_of_Int16Array :: "int16 list \<Rightarrow> byte list" where
  "Uint8Array_of_Int16Array ws = concat (map int16_bytes ws)"

text \<open>
  \<open>new Int16Array(bytes.buffer)\<close>: pairs of bytes, low byte first; the constructor throws a
  RangeError when the byte length is odd.
\<close>

fun Int16Array_of_bytes :: "byte list \<Rightarrow> fault + int16 list" where
  "Int16Array_of_bytes [] = Inr []"
| "Int16Array_of_bytes [b] = Inl RangeError"
| "Int16Array_of_bytes (lo # hi # rest) =
     (case Int16Array_of_bytes rest of
        Inl e \<Rightarrow> Inl e
      | Inr ws \<Rightarrow> Inr (word_of_nat (unat lo + 256 * unat hi) # ws))"

record media =
  data :: string
  mimeType :: string

text \<open>\<open>encode\<close> (EboLens.tsx) and \<open>encodeBase64\<close> (LiveMode.tsx).\<close>

definition encode :: "byte list \<Rightarrow> string" where
  "encode bytes = btoa (map (\<lambda>b. char_of (unat b)) bytes)"

definition encodeBase64 :: "byte list \<Rightarrow> string" where
  "encodeBase64 bytes = btoa (map (\<lambda>b. char_of (unat b)) bytes)"

text \<open>\<open>createBlob\<close> (EboLens.tsx) and \<open>createAudioBlob\<close> (LiveMode.tsx).\<close>

definition createBlob :: "real list \<Rightarrow> media" where
  "createBlob samples =
     \<lparr>data = encode (Uint8Array_of_Int16Array (map (\<lambda>x. ToInt16 (x * 32768)) samples)),
      mimeType = ''audio/pcm;rate=16000''\<rparr>"

definition createAudioBlob :: "real list \<Rightarrow> media" where
  "createAudioBlob samples =
     \<lparr>data = encodeBase64 (Uint8Array_of_Int16Array (map (\<lambda>x. ToInt16 (x * 32768)) samples)),
      mimeType = ''audio/pcm;rate=16000''\<rparr>"

text \<open>
  \<open>decodeAudioData\<close> (the same in both components). The buffer is the list of samples of
  its one channel, at 24000 Hz. \<open>createBuffer\<close> throws NotSupportedError for a length of 0.
\<close>

type_synonym audio_buffer = "real list"

definition decodeAudioData :: "string \<Rightarrow> fault + audio_buffer" where
  "decodeAudioData base64 =
     (case atob base64 of
        Inl e \<Rightarrow> Inl e
      | Inr binaryString \<Rightarrow>
          (case Int16Array_of_bytes (map (\<lambda>c. word_of_nat (of_char c)) binaryString) of
             Inl e \<Rightarrow> Inl e
           | Inr dataInt16 \<Rightarrow>
               if dataInt16 = [] then Inl NotSupportedError
               else Inr (map (\<lambda>w. real_of_int (sint w) / 32768) dataInt16)))"

definition duration :: "audio_buffer \<Rightarrow> real" where
  "duration buffer = real (length buffer) / 24000"

section \<open>Session traffic and the state shared by both components\<close>

text \<open>
  A function call of the remote session carries \<open>id\<close>, \<open>name\<close> and \<open>args\<close>, each of them
  optional: EboLens.tsx reads \<open>(fc.args as any)?.duration\<close>. An acknowledgment is
  \<open>{id, name, response}\<close> with the response \<open>{ ok: true }\<close> (EboLens.tsx) or
  \<open>{ status: "ok" }\<close> (LiveMode.tsx).
\<close>

record function_call =
  fc_id :: jsval
  fc_name :: jsval
  fc_args :: "jsobject option"

datatype response = Ok_true | Status_ok

record function_response =
  fr_id :: jsval
  fr_name :: jsval
  fr_response :: response

datatype outmsg = SendRealtimeInput media | SendToolResponse "function_response list"

text \<open>
  Of a server message the handlers read
  \<open>serverContent?.modelTurn?.parts?.[0]?.inlineData?.data\<close> and \<open>toolCall.functionCalls\<close>;
  a tool call is modelled by its list of function calls.
\<close>

record server_message =
  msg_audio :: "string option"
  msg_toolCall :: "function_call list option"

text \<open>
  State that both components keep: React state (\<open>status\<close>, \<open>volume\<close>), refs
  (\<open>outputCtx\<close>: the output context exists; \<open>videoCanvas\<close>: the video and canvas elements
  exist; \<open>stream\<close>: the media stream exists; \<open>nextStartTime\<close>), and what has been done to
  the outside: the buffers started on the output context with their start times, and the
  messages sent on the session, oldest first. Every send is a \<open>then\<close> callback of the one
  session promise; they run in the order they were registered. \<open>volume\<close> is \<open>None\<close> for NaN.
\<close>

record bridge =
  status :: string
  volume :: "real option"
  outputCtx :: bool
  videoCanvas :: bool
  stream :: bool
  tracks_stopped :: bool
  contexts_closed :: bool
  nextStartTime :: real
  started :: "(real \<times> audio_buffer) list"
  sent :: "outmsg list"

text \<open>
  The playback lines of \<open>onmessage\<close>, the same in both components:
  \<open>nextStartTime = Math.max(nextStartTime, ctx.currentTime); source.start(nextStartTime);
  nextStartTime += buffer.duration\<close>.
\<close>

definition schedule :: "real \<Rightarrow> audio_buffer \<Rightarrow> 'a bridge_scheme \<Rightarrow> 'a bridge_scheme" where
  "schedule currentTime buffer st =
     (let startTime = max (nextStartTime st) currentTime in
      st\<lparr>started := started st @ [(startTime, buffer)],
         nextStartTime := startTime + duration buffer\<rparr>)"

text \<open>The meter of \<open>onaudioprocess\<close>: \<open>Math.sqrt(sum / data.length)\<close>, NaN for an empty frame.\<close>

definition rms :: "real list \<Rightarrow> real option" where
  "rms samples =
     (if samples = [] then None
      else Some (sqrt (foldl (\<lambda>sum x. sum + x * x) 0 samples / real (length samples))))"

section \<open>EboLens.tsx\<close>

text \<open>
  Timers set with \<open>setTimeout\<close>: clearing the capture flag after 2000 ms, and stopping the
  recorder with the given index after \<open>sec * 1000\<close> ms.
\<close>

datatype timer = ClearCapturing | StopRecorder nat jsval

record recorder =
  rec_sec :: jsval
  rec_recording :: bool

record lens = bridge +
  isActive :: bool
  isCapturing :: bool
  isRecording :: bool
  isAiSpeaking :: bool
  frame_jpeg :: string
  recorders :: "recorder list"
  timers :: "timer list"
  downloads :: "string list"

text \<open>
  The effect runs once, after the first render (\<open>useEffect(..., [])\<close>), so the session
  callbacks, and the \<open>startRec\<close> they call, are those of the first render. There
  \<open>isRecording\<close> is the constant \<open>useState(false)\<close> returned; \<open>setIsRecording\<close> changes the
  state that later renders see, not that constant.
\<close>

definition isRecording_first_render :: bool where
  "isRecording_first_render = False"

definition startRec :: "bool \<Rightarrow> jsval \<Rightarrow> lens \<Rightarrow> lens" where
  "startRec isRecording_seen sec st =
     (if isRecording_seen \<or> \<not> stream st then st
      else st\<lparr>isRecording := True,
              recorders := recorders st @ [\<lparr>rec_sec = sec, rec_recording = True\<rparr>],
              timers := timers st @ [StopRecorder (length (recorders st)) sec]\<rparr>)"

fun show_nat :: "nat \<Rightarrow> string" where
  "show_nat n =
     (if n < 10 then [''0123456789'' ! n] else show_nat (n div 10) @ [''0123456789'' ! (n mod 10)])"

text \<open>
  The timer of \<open>startRec\<close> fires: a recorder still recording is stopped, and its \<open>onstop\<close>
  offers the download \<open>EBO_REC_${Date.now()}.webm\<close> and calls \<open>setIsRecording(false)\<close>.
  A download is modelled by its file name; the recorded chunks are not modelled, and the
  browser is taken to record \<open>video/webm\<close>.
\<close>

definition recorder_timer :: "nat \<Rightarrow> nat \<Rightarrow> lens \<Rightarrow> lens" where
  "recorder_timer i now_ms st =
     (if i < length (recorders st) \<and> rec_recording (recorders st ! i) then
        st\<lparr>recorders := (recorders st)[i := (recorders st ! i)\<lparr>rec_recording := False\<rparr>],
           downloads := downloads st @ [''EBO_REC_'' @ show_nat now_ms @ ''.webm''],
           isRecording := False\<rparr>
      else st)"

text \<open>The body of the loop over \<open>msg.toolCall.functionCalls\<close>, before the push.\<close>

definition EboLens_functionCall :: "function_call \<Rightarrow> lens \<Rightarrow> lens" where
  "EboLens_functionCall fc st =
     (let st1 =
        (if fc_name fc = JStr ''capture_and_analyze'' then
           (let a = st\<lparr>isCapturing := True\<rparr>;
                b = (if videoCanvas a then
                       a\<lparr>sent := sent a @
                           [SendRealtimeInput \<lparr>data = frame_jpeg a, mimeType = ''image/jpeg''\<rparr>]\<rparr>
                     else a)
            in b\<lparr>timers := timers b @ [ClearCapturing]\<rparr>)
         else st)
      in if fc_name fc = JStr ''record_video_clip'' then
           startRec isRecording_first_render
             (js_or (case fc_args fc of None \<Rightarrow> JUndefined | Some args \<Rightarrow> js_get args ''duration'')
                    (JNum 10)) st1
         else st1)"

fun EboLens_functionCalls ::
  "function_call list \<Rightarrow> function_response list \<Rightarrow> lens \<Rightarrow> function_response list \<times> lens" where
  "EboLens_functionCalls [] responses st = (responses, st)"
| "EboLens_functionCalls (fc # fcs) responses st =
     EboLens_functionCalls fcs
       (responses @ [\<lparr>fr_id = fc_id fc, fr_name = fc_name fc, fr_response = Ok_true\<rparr>])
       (EboLens_functionCall fc st)"

definition EboLens_audio :: "real \<Rightarrow> string option \<Rightarrow> lens \<Rightarrow> fault option \<times> lens" where
  "EboLens_audio currentTime audio st =
     (case audio of
        None \<Rightarrow> (None, st)
      | Some base64 \<Rightarrow>
          if base64 \<noteq> [] \<and> outputCtx st then
            (let st1 = st\<lparr>isAiSpeaking := True\<rparr> in
             case decodeAudioData base64 of
               Inl e \<Rightarrow> (Some e, st1)
             | Inr buffer \<Rightarrow> (None, schedule currentTime buffer st1))
          else (None, st))"

text \<open>
  \<open>onmessage\<close>. \<open>currentTime\<close> is what the output context's clock reads when the buffer is
  scheduled. The result is the fault that rejected the handler's promise, if any, and the
  state the handler leaves.
\<close>

definition EboLens_onmessage :: "real \<Rightarrow> server_message \<Rightarrow> lens \<Rightarrow> fault option \<times> lens" where
  "EboLens_onmessage currentTime msg st =
     (if \<not> isActive st then (None, st)
      else
        (case EboLens_audio currentTime (msg_audio msg) st of
           (Some e, st1) \<Rightarrow> (Some e, st1)
         | (None, st1) \<Rightarrow>
             (case msg_toolCall msg of
                None \<Rightarrow> (None, st1)
              | Some fcs \<Rightarrow>
                  (case EboLens_functionCalls fcs [] st1 of
                     (responses, st2) \<Rightarrow>
                       (None, st2\<lparr>sent := sent st2 @ [SendToolResponse responses]\<rparr>)))))"

definition EboLens_onaudioprocess :: "real list \<Rightarrow> lens \<Rightarrow> lens" where
  "EboLens_onaudioprocess samples st =
     (if \<not> isActive st then st
      else st\<lparr>volume := map_option (\<lambda>r. r * 200) (rms samples),
              sent := sent st @ [SendRealtimeInput (createBlob samples)]\<rparr>)"

definition EboLens_cleanup :: "lens \<Rightarrow> lens" where
  "EboLens_cleanup st = st\<lparr>isActive := False, tracks_stopped := True, contexts_closed := True\<rparr>"

text \<open>The component once the session is open, with the JPEG the camera would give.\<close>

definition EboLens_open :: "string \<Rightarrow> lens" where
  "EboLens_open jpeg =
     \<lparr>status = ''ACTIVE'', volume = Some 0, outputCtx = True, videoCanvas = True, stream = True,
      tracks_stopped = False, contexts_closed = False, nextStartTime = 0, started = [], sent = [],
      isActive = True, isCapturing = False, isRecording = False, isAiSpeaking = False,
      frame_jpeg = jpeg, recorders = [], timers = [], downloads = []\<rparr>"

section \<open>LiveMode.tsx\<close>

text \<open>The overlay state \<open>NavigationData\<close> of types.ts, with the fields as the call gave them.\<close>

record navigation_data =
  nav_isActive :: bool
  destination :: jsval
  direction :: jsval
  distance :: jsval
  eta :: string

text \<open>
  The generated image is the template string
  \<open>https://source.unsplash.com/random/800x800/?futuristic,${prompt}\<close>, kept here as the
  prompt it was built from; whatever the prompt, the string is not empty.
\<close>

datatype image_url = Unsplash_futuristic jsval

text \<open>
  \<open>canvas_blob\<close> is what the camera would give to \<open>analyzeSurroundings\<close>: the base64 of
  the JPEG, or \<open>None\<close> when \<open>canvas.toBlob\<close> calls back with \<open>null\<close>, on which
  \<open>readAsDataURL\<close> throws a TypeError.
\<close>

record live = bridge +
  mounted :: bool
  navData :: "navigation_data option"
  generatedImage :: "image_url option"
  isAnalyzing :: bool
  canvas_blob :: "string option"

text \<open>
  The body of the loop over \<open>msg.toolCall.functionCalls\<close>, before the push. Reading a
  property of \<open>fc.args\<close> when the call has no \<open>args\<close> throws a TypeError.
\<close>

definition LiveMode_functionCall :: "function_call \<Rightarrow> live \<Rightarrow> fault option \<times> live" where
  "LiveMode_functionCall fc st =
     (if fc_name fc = JStr ''startNavigation'' then
        (case fc_args fc of
           None \<Rightarrow> (Some TypeError, st)
         | Some args \<Rightarrow>
             (None, st\<lparr>navData := Some
                         \<lparr>nav_isActive = True,
                          destination = js_get args ''destination'',
                          direction = js_or (js_get args ''direction'') (JStr ''STRAIGHT''),
                          distance = js_or (js_get args ''estimatedDistance'') (JStr ''...''),
                          eta = ''5 min''\<rparr>,
                       generatedImage := None,
                       isAnalyzing := False\<rparr>))
      else if fc_name fc = JStr ''analyzeSurroundings'' then
        (let st1 = st\<lparr>isAnalyzing := True, navData := None\<rparr> in
         if videoCanvas st1 then
           (case canvas_blob st1 of
              None \<Rightarrow> (Some TypeError, st1)
            | Some base64 \<Rightarrow>
                (None, st1\<lparr>sent := sent st1 @
                           [SendRealtimeInput \<lparr>data = base64, mimeType = ''image/jpeg''\<rparr>]\<rparr>))
         else (None, st1))
      else if fc_name fc = JStr ''generateHologram'' then
        (let st1 = st\<lparr>navData := None, isAnalyzing := False\<rparr> in
         case fc_args fc of
           None \<Rightarrow> (Some TypeError, st1)
         | Some args \<Rightarrow>
             (None, st1\<lparr>generatedImage := Some (Unsplash_futuristic (js_get args ''prompt''))\<rparr>))
      else if fc_name fc = JStr ''stopSystem'' then
        (None, st\<lparr>navData := None, generatedImage := None, isAnalyzing := False\<rparr>)
      else (None, st))"

fun LiveMode_functionCalls ::
  "function_call list \<Rightarrow> function_response list \<Rightarrow> live
     \<Rightarrow> fault option \<times> function_response list \<times> live" where
  "LiveMode_functionCalls [] functionResponses st = (None, functionResponses, st)"
| "LiveMode_functionCalls (fc # fcs) functionResponses st =
     (case LiveMode_functionCall fc st of
        (Some e, st1) \<Rightarrow> (Some e, functionResponses, st1)
      | (None, st1) \<Rightarrow>
          LiveMode_functionCalls fcs
            (functionResponses @
               [\<lparr>fr_id = fc_id fc, fr_name = fc_name fc, fr_response = Status_ok\<rparr>]) st1)"

definition LiveMode_toolCall :: "function_call list option \<Rightarrow> live \<Rightarrow> fault option \<times> live" where
  "LiveMode_toolCall toolCall st =
     (case toolCall of
        None \<Rightarrow> (None, st)
      | Some fcs \<Rightarrow>
          (case LiveMode_functionCalls fcs [] st of
             (Some e, functionResponses, st1) \<Rightarrow> (Some e, st1)
           | (None, functionResponses, st1) \<Rightarrow>
               (None, st1\<lparr>sent := sent st1 @ [SendToolResponse functionResponses]\<rparr>)))"

definition LiveMode_audio :: "real \<Rightarrow> string option \<Rightarrow> live \<Rightarrow> fault option \<times> live" where
  "LiveMode_audio currentTime base64Audio st =
     (case base64Audio of
        None \<Rightarrow> (None, st)
      | Some base64 \<Rightarrow>
          if base64 \<noteq> [] \<and> outputCtx st then
            (case decodeAudioData base64 of
               Inl e \<Rightarrow> (Some e, st)
             | Inr buffer \<Rightarrow> (None, schedule currentTime buffer st))
          else (None, st))"

text \<open>
  \<open>onmessage\<close>: the tool calls, then the audio. (The transcript lines that follow touch
  neither the session nor the overlays nor the playback clock.)
\<close>

definition LiveMode_onmessage :: "real \<Rightarrow> server_message \<Rightarrow> live \<Rightarrow> fault option \<times> live" where
  "LiveMode_onmessage currentTime msg st =
     (if \<not> mounted st then (None, st)
      else
        (case LiveMode_toolCall (msg_toolCall msg) st of
           (Some e, st1) \<Rightarrow> (Some e, st1)
         | (None, st1) \<Rightarrow> LiveMode_audio currentTime (msg_audio msg) st1))"

definition LiveMode_onaudioprocess :: "real list \<Rightarrow> live \<Rightarrow> live" where
  "LiveMode_onaudioprocess inputData st =
     (let st1 = (if mounted st then st\<lparr>volume := map_option (\<lambda>r. r * 100) (rms inputData)\<rparr>
                 else st)
      in st1\<lparr>sent := sent st1 @ [SendRealtimeInput (createAudioBlob inputData)]\<rparr>)"

definition LiveMode_cleanup :: "live \<Rightarrow> live" where
  "LiveMode_cleanup st = st\<lparr>mounted := False, tracks_stopped := True, contexts_closed := True\<rparr>"

text \<open>The component once the session is open, with what the camera would give.\<close>

definition LiveMode_open :: "string option \<Rightarrow> live" where
  "LiveMode_open blob =
     \<lparr>status = ''SYSTEM READY'', volume = Some 0, outputCtx = True, videoCanvas = True,
      stream = True, tracks_stopped = False, contexts_closed = False, nextStartTime = 0,
      started = [], sent = [], mounted = True, navData = None, generatedImage = None,
      isAnalyzing = False, canvas_blob = blob\<rparr>"

text \<open>How many of the three overlays (navigation, analyzing, generated image) are shown.\<close>

definition overlays :: "live \<Rightarrow> nat" where
  "overlays st =
     (if navData st = None then 0 else 1) + (if isAnalyzing st then 1 else 0) +
     (if generatedImage st = None then 0 else 1)"

section \<open>Runs of events\<close>

text \<open>Buffers scheduled one after the other, each with the clock reading at its turn.\<close>

fun schedule_all :: "(real \<times> audio_buffer) list \<Rightarrow> 'a bridge_scheme \<Rightarrow> 'a bridge_scheme" where
  "schedule_all [] st = st"
| "schedule_all ((currentTime, buffer) # rest) st = schedule_all rest (schedule currentTime buffer st)"

text \<open>
  Audio messages handled one after the other by the \<open>onmessage\<close> of EboLens.tsx; a handler
  that rejects leaves its state to the next message.
\<close>

fun EboLens_messages :: "(real \<times> server_message) list \<Rightarrow> lens \<Rightarrow> lens" where
  "EboLens_messages [] st = st"
| "EboLens_messages ((currentTime, msg) # rest) st =
     EboLens_messages rest (snd (EboLens_onmessage currentTime msg st))"

fun LiveMode_messages :: "(real \<times> server_message) list \<Rightarrow> live \<Rightarrow> live" where
  "LiveMode_messages [] st = st"
| "LiveMode_messages ((currentTime, msg) # rest) st =
     LiveMode_messages rest (snd (LiveMode_onmessage currentTime msg st))"

fun EboLens_frames :: "real list list \<Rightarrow> lens \<Rightarrow> lens" where
  "EboLens_frames [] st = st"
| "EboLens_frames (samples # rest) st = EboLens_frames rest (EboLens_onaudioprocess samples st)"

fun LiveMode_frames :: "real list list \<Rightarrow> live \<Rightarrow> live" where
  "LiveMode_frames [] st = st"
| "LiveMode_frames (samples # rest) st = LiveMode_frames rest (LiveMode_onaudioprocess samples st)"

section \<open>The playback clock, in the words of the specification\<close>

text \<open>
  The specification's \<open>enqueueFragment\<close>: the start time is the larger of the cursor and
  the device time, and the cursor moves to the start time plus the buffer's duration.
\<close>

fun spec_enqueue :: "real \<Rightarrow> (real \<times> audio_buffer) list \<Rightarrow> (real \<times> audio_buffer) list" where
  "spec_enqueue cursor [] = []"
| "spec_enqueue cursor ((deviceTime, buffer) # rest) =
     (max cursor deviceTime, buffer) # spec_enqueue (max cursor deviceTime + duration buffer) rest"

fun spec_cursor :: "real \<Rightarrow> (real \<times> audio_buffer) list \<Rightarrow> real" where
  "spec_cursor cursor [] = cursor"
| "spec_cursor cursor ((deviceTime, buffer) # rest) =
     spec_cursor (max cursor deviceTime + duration buffer) rest"

section \<open>Example runs\<close>

text \<open>
  Two fragments of two samples each (\<open>AAAAAA==\<close> is four zero bytes); the second arrives
  when the output clock reads 1 s, long after the first has finished playing.
\<close>

definition late_fragments :: "(real \<times> server_message) list" where
  "late_fragments =
     [(0, \<lparr>msg_audio = Some ''AAAAAA=='', msg_toolCall = None\<rparr>),
      (1, \<lparr>msg_audio = Some ''AAAAAA=='', msg_toolCall = None\<rparr>)]"

text \<open>Three buffers of 0.5 s, 0.3 s and 0.7 s, arriving at 0 s, 0.25 s and 2 s.\<close>

definition three_buffers :: "(real \<times> audio_buffer) list" where
  "three_buffers = [(0, replicate 12000 0), (1 / 4, replicate 7200 0), (2, replicate 16800 0)]"

section \<open>Malformed fragments\<close>

text \<open>
  A message carries a malformed fragment when its audio payload is a non-empty string that
  \<open>decodeAudioData\<close> fails on. \<open>drop_fragment\<close> is the same message without the payload.
\<close>

definition malformed :: "server_message \<Rightarrow> bool" where
  "malformed msg =
     (case msg_audio msg of None \<Rightarrow> False | Some base64 \<Rightarrow> base64 \<noteq> [] \<and> isl (decodeAudioData base64))"

definition drop_fragment :: "server_message \<Rightarrow> server_message" where
  "drop_fragment msg = msg\<lparr>msg_audio := None\<rparr>"

text \<open>What the playback lines of EboLens.tsx read and write.\<close>

definition playback :: "lens \<Rightarrow> bool \<times> bool \<times> real \<times> (real \<times> audio_buffer) list" where
  "playback st = (isActive st, outputCtx st, nextStartTime st, started st)"

text \<open>A payload outside the base64 alphabet, and the good fragment that follows it at 1 s.\<close>

definition bad_message :: server_message where
  "bad_message = \<lparr>msg_audio = Some ''!!!'', msg_toolCall = None\<rparr>"

definition bad_then_good :: "(real \<times> server_message) list" where
  "bad_then_good =
     [(1, \<lparr>msg_audio = Some ''AAAAAA=='', msg_toolCall = None\<rparr>)]"

section \<open>Example tool calls\<close>

text \<open>A call of the tool \<open>name\<close> with identifier \<open>i\<close> and the given arguments.\<close>

definition call :: "string \<Rightarrow> string \<Rightarrow> jsobject option \<Rightarrow> function_call" where
  "call i name args = \<lparr>fc_id = JStr i, fc_name = JStr name, fc_args = args\<rparr>"

definition tool_message :: "function_call list \<Rightarrow> server_message" where
  "tool_message fcs = \<lparr>msg_audio = None, msg_toolCall = Some fcs\<rparr>"

text \<open>The acknowledgments the loops push, one for each call.\<close>

definition ack :: "response \<Rightarrow> function_call \<Rightarrow> function_response" where
  "ack r fc = \<lparr>fr_id = fc_id fc, fr_name = fc_name fc, fr_response = r\<rparr>"

text \<open>A hologram is generated, then the surroundings are analysed.\<close>

definition hologram_then_analyze :: "function_call list" where
  "hologram_then_analyze =
     [call ''1'' ''generateHologram'' (Some [(''prompt'', JStr ''city'')]),
      call ''2'' ''analyzeSurroundings'' (Some [])]"

text \<open>A batch of three calls; the second names a known tool but carries no \<open>args\<close>.\<close>

definition batch_without_args :: "function_call list" where
  "batch_without_args =
     [call ''1'' ''stopSystem'' (Some []),
      call ''2'' ''generateHologram'' None,
      call ''3'' ''unknownTool'' (Some [])]"

text \<open>Two requests to record a clip, in one batch and in two messages one second apart.\<close>

definition two_clips :: "function_call list" where
  "two_clips =
     [call ''1'' ''record_video_clip'' (Some []),
      call ''2'' ''record_video_clip'' (Some [(''duration'', JNum 3)])]"

definition clip_messages :: "(real \<times> server_message) list" where
  "clip_messages =
     [(0, tool_message [call ''1'' ''record_video_clip'' (Some [])]),
      (1, tool_message [call ''2'' ''record_video_clip'' (Some [(''duration'', JNum 3)])])]"

text \<open>A navigation request with an empty direction and no distance.\<close>

definition navigate_museum :: function_call where
  "navigate_museum =
     call ''7'' ''startNavigation'' (Some [(''destination'', JStr ''Museum''), (''direction'', JStr [])])"

text \<open>A navigation request that carries no \<open>args\<close> at all.\<close>

definition navigate_without_args :: function_call where
  "navigate_without_args = call ''8'' ''startNavigation'' None"

text \<open>An argument value that is absent, \<open>null\<close> or the empty string.\<close>

definition missing_or_empty :: "jsval \<Rightarrow> bool" where
  "missing_or_empty v = (v = JUndefined \<or> v = JNull \<or> v = JStr [])"

section \<open>The parts of an encoded string\<close>

text \<open>
  The six-bit digits that \<open>btoa\<close> writes for a list of byte values, and the number of \<open>=\<close>
  it pads with.
\<close>

fun b64_sextets :: "nat list \<Rightarrow> nat list" where
  "b64_sextets [] = []"
| "b64_sextets [a] = [a div 4, (a mod 4) * 16]"
| "b64_sextets [a, b] = [a div 4, (a mod 4) * 16 + b div 16, (b mod 16) * 4]"
| "b64_sextets (a # b # c # rest) =
     [a div 4, (a mod 4) * 16 + b div 16, (b mod 16) * 4 + c div 64, c mod 64] @ b64_sextets rest"

fun b64_pad :: "nat list \<Rightarrow> nat" where
  "b64_pad [] = 0"
| "b64_pad [a] = 2"
| "b64_pad [a, b] = 1"
| "b64_pad (a # b # c # rest) = b64_pad rest"

text \<open>The bytes that \<open>createBlob\<close> and \<open>createAudioBlob\<close> hand to the base64 encoder.\<close>

definition pcm_bytes :: "real list \<Rightarrow> byte list" where
  "pcm_bytes samples = Uint8Array_of_Int16Array (map (\<lambda>x. ToInt16 (x * 32768)) samples)"

section \<open>Capture: what a sample becomes\<close>

text \<open>Every sample of the frame lies in the range of normalized audio, from -1 to 1.\<close>

definition normalized :: "real list \<Rightarrow> bool" where
  "normalized samples = list_all (\<lambda>x. - 1 \<le> x \<and> x \<le> 1) samples"

text \<open>Three short frames, and a frame of 4096 full-scale samples.\<close>

definition three_frames :: "real list list" where
  "three_frames = [[0, 1 / 2], [- 1, 1 / 4], [1 / 32768, - 1 / 2]]"

definition loud_frame :: "real list" where
  "loud_frame = replicate 4096 1"

text \<open>The frame of 4096 samples at positive full scale that the capture pipeline encodes.\<close>

definition full_scale_frame :: "real list" where
  "full_scale_frame = replicate 4096 1"

section \<open>Properties of the playback scheduler\<close>

lemma duration_nonneg: "0 \<le> duration buffer"
  by (simp add: duration_def)

lemma started_schedule:
  "started (schedule t b st) = started st @ [(max (nextStartTime st) t, b)]"
  by (simp add: schedule_def Let_def)

lemma nextStartTime_schedule:
  "nextStartTime (schedule t b st) = max (nextStartTime st) t + duration b"
  by (simp add: schedule_def Let_def)

lemma started_schedule_all:
  "started (schedule_all es st) = started st @ spec_enqueue (nextStartTime st) es"
proof (induction es arbitrary: st)
  case Nil
  show ?case by simp
next
  case (Cons e es)
  obtain t b where e: "e = (t, b)" by (cases e)
  show ?case
    by (simp add: e Cons.IH started_schedule nextStartTime_schedule)
qed

lemma nextStartTime_schedule_all:
  "nextStartTime (schedule_all es st) = spec_cursor (nextStartTime st) es"
proof (induction es arbitrary: st)
  case Nil
  show ?case by simp
next
  case (Cons e es)
  obtain t b where e: "e = (t, b)" by (cases e)
  show ?case
    by (simp add: e Cons.IH nextStartTime_schedule)
qed

lemma length_spec_enqueue: "length (spec_enqueue c es) = length es"
  by (induction c es rule: spec_enqueue.induct) simp_all

lemma buffers_spec_enqueue: "map snd (spec_enqueue c es) = map snd es"
  by (induction c es rule: spec_enqueue.induct) simp_all

lemma spec_enqueue_lower: "p \<in> set (spec_enqueue c es) \<Longrightarrow> c \<le> fst p"
proof (induction c es rule: spec_enqueue.induct)
  case (1 cursor)
  then show ?case by simp
next
  case (2 cursor deviceTime buffer rest)
  have "cursor \<le> max cursor deviceTime + duration buffer"
    using duration_nonneg [of buffer] by linarith
  with 2 show ?case by fastforce
qed

lemma spec_enqueue_device: "i < length es \<Longrightarrow> fst (es ! i) \<le> fst (spec_enqueue c es ! i)"
proof (induction c es arbitrary: i rule: spec_enqueue.induct)
  case (1 cursor)
  then show ?case by simp
next
  case (2 cursor deviceTime buffer rest)
  then show ?case by (cases i) simp_all
qed

lemma sorted_spec_enqueue: "sorted (map fst (spec_enqueue c es))"
proof (induction c es rule: spec_enqueue.induct)
  case (1 cursor)
  show ?case by simp
next
  case (2 cursor deviceTime buffer rest)
  have "max cursor deviceTime \<le> fst p"
    if "p \<in> set (spec_enqueue (max cursor deviceTime + duration buffer) rest)" for p
    using spec_enqueue_lower [OF that] duration_nonneg [of buffer] by linarith
  with 2 show ?case by auto
qed

lemma spec_enqueue_step:
  "Suc i < length es \<Longrightarrow>
   fst (spec_enqueue c es ! Suc i) =
     max (fst (spec_enqueue c es ! i) + duration (snd (es ! i))) (fst (es ! Suc i))"
proof (induction c es arbitrary: i rule: spec_enqueue.induct)
  case (1 cursor)
  then show ?case by simp
next
  case (2 cursor deviceTime buffer rest)
  show ?case
  proof (cases i)
    case 0
    with 2(2) obtain t b rest' where "rest = (t, b) # rest'"
      by (cases rest) auto
    with 0 show ?thesis by simp
  next
    case (Suc j)
    with 2 show ?thesis by simp
  qed
qed

lemma LiveMode_audio_schedules:
  assumes "base64 \<noteq> []" and "outputCtx st" and "decodeAudioData base64 = Inr buffer"
  shows "LiveMode_audio t (Some base64) st = (None, schedule t buffer st)"
  using assms by (simp add: LiveMode_audio_def)

lemma EboLens_audio_schedules:
  assumes "base64 \<noteq> []" and "outputCtx st" and "decodeAudioData base64 = Inr buffer"
  shows "EboLens_audio t (Some base64) st = (None, schedule t buffer (st\<lparr>isAiSpeaking := True\<rparr>))"
  using assms by (simp add: EboLens_audio_def)

lemma spec_cursor_last:
  "es \<noteq> [] \<Longrightarrow>
   spec_cursor c es =
     fst (last (spec_enqueue c es)) + duration (snd (last (spec_enqueue c es)))"
proof (induction c es rule: spec_enqueue.induct)
  case (1 cursor)
  then show ?case by simp
next
  case (2 cursor deviceTime buffer rest)
  show ?case
  proof (cases rest)
    case Nil
    then show ?thesis by simp
  next
    case (Cons e rest')
    obtain t b where "e = (t, b)" by (cases e)
    with Cons 2 show ?thesis by simp
  qed
qed

lemma decode_zeros: "decodeAudioData ''AAAAAA=='' = Inr [0, 0]"
  by (simp add: decodeAudioData_def atob_def strip_padding_def ascii_whitespace_def
      b64_alphabet_def)

text \<open>
  C1, as amended. Each buffer starts at the larger of the cursor and the device time, and
  the cursor then is that start time plus the buffer's duration. The start times never
  decrease, and a buffer never starts before the one ahead of it has ended (no overlap). It
  starts exactly when that one ends (no gap) if and only if the device clock has not passed
  that moment when it is scheduled; otherwise it starts at the device time.
\<close>

theorem playback_schedule:
  assumes "sch = drop (length (started st)) (started (schedule_all es st))"
    and "Suc i < length es"
  shows "length sch = length es \<and> map snd sch = map snd es \<and> sorted (map fst sch) \<and>
         fst (sch ! 0) = max (nextStartTime st) (fst (es ! 0)) \<and>
         fst (sch ! Suc i) = max (fst (sch ! i) + duration (snd (sch ! i))) (fst (es ! Suc i)) \<and>
         fst (sch ! i) + duration (snd (sch ! i)) \<le> fst (sch ! Suc i) \<and>
         (fst (sch ! Suc i) = fst (sch ! i) + duration (snd (sch ! i))
            \<longleftrightarrow> fst (es ! Suc i) \<le> fst (sch ! i) + duration (snd (sch ! i))) \<and>
         nextStartTime (schedule_all es st) = fst (last sch) + duration (snd (last sch))"
proof -
  have sch: "sch = spec_enqueue (nextStartTime st) es"
    using assms(1) by (simp add: started_schedule_all)
  have i: "i < length es" using assms(2) by simp
  have snd_i: "snd (sch ! i) = snd (es ! i)"
    using buffers_spec_enqueue [of "nextStartTime st" es] i
    by (metis sch length_spec_enqueue nth_map)
  have step: "fst (sch ! Suc i) = max (fst (sch ! i) + duration (snd (sch ! i))) (fst (es ! Suc i))"
    using spec_enqueue_step [OF assms(2), of "nextStartTime st"]
    by (simp add: sch snd_i [unfolded sch])
  obtain t b rest where es: "es = (t, b) # rest"
    using assms(2) by (cases es) auto
  have first: "fst (sch ! 0) = max (nextStartTime st) (fst (es ! 0))"
    by (simp add: sch es)
  have "es \<noteq> []" by (simp add: es)
  then have last: "nextStartTime (schedule_all es st) = fst (last sch) + duration (snd (last sch))"
    unfolding sch nextStartTime_schedule_all by (rule spec_cursor_last)
  have gap: "fst (sch ! Suc i) = fst (sch ! i) + duration (snd (sch ! i))
      \<longleftrightarrow> fst (es ! Suc i) \<le> fst (sch ! i) + duration (snd (sch ! i))"
    unfolding step by linarith
  have no_overlap: "fst (sch ! i) + duration (snd (sch ! i)) \<le> fst (sch ! Suc i)"
    unfolding step by linarith
  have "length sch = length es" "map snd sch = map snd es" "sorted (map fst sch)"
    by (simp_all add: sch length_spec_enqueue buffers_spec_enqueue sorted_spec_enqueue)
  with step first last gap no_overlap show ?thesis
    by blast
qed

theorem playback_schedule_witness:
  "started (schedule_all three_buffers (LiveMode_open None)) =
     drop (length (started (LiveMode_open None)))
       (started (schedule_all three_buffers (LiveMode_open None))) \<and>
   Suc 1 < length three_buffers \<and>
   map fst (started (schedule_all three_buffers (LiveMode_open None))) = [0, 1 / 2, 2] \<and>
   fst (started (schedule_all three_buffers (LiveMode_open None)) ! Suc 1) =
     max (fst (started (schedule_all three_buffers (LiveMode_open None)) ! 1) +
          duration (snd (started (schedule_all three_buffers (LiveMode_open None)) ! 1)))
         (fst (three_buffers ! Suc 1))"
proof -
  have run: "started (schedule_all three_buffers (LiveMode_open None)) =
      [(0, replicate 12000 0), (1 / 2, replicate 7200 0), (2, replicate 16800 0)]"
    by (simp add: three_buffers_def schedule_def LiveMode_open_def duration_def)
  have len: "Suc 1 < length three_buffers"
    by (simp add: three_buffers_def)
  have "started (LiveMode_open None) = []"
    by (simp add: LiveMode_open_def)
  then have sch: "started (schedule_all three_buffers (LiveMode_open None)) =
      drop (length (started (LiveMode_open None)))
        (started (schedule_all three_buffers (LiveMode_open None)))"
    by simp
  have fsts: "map fst (started (schedule_all three_buffers (LiveMode_open None))) = [0, 1 / 2, 2]"
    by (simp add: run)
  from playback_schedule [OF sch len] sch len fsts show ?thesis
    by blast
qed

text \<open>
  C1, as stated, fails: the second of two fragments arrives after the first has finished
  playing and starts at the device time, not at the end of the first.
\<close>

theorem late_fragment_gap:
  "fst (started (LiveMode_messages late_fragments (LiveMode_open None)) ! 1) \<noteq>
   fst (started (LiveMode_messages late_fragments (LiveMode_open None)) ! 0) +
   duration (snd (started (LiveMode_messages late_fragments (LiveMode_open None)) ! 0))"
  by (simp add: late_fragments_def LiveMode_onmessage_def LiveMode_toolCall_def LiveMode_audio_def
      LiveMode_open_def decode_zeros schedule_def duration_def)

section \<open>Malformed fragments do not disturb the playback clock\<close>

lemma playback_startRec: "playback (startRec r sec st) = playback st"
  by (simp add: startRec_def playback_def)

lemma playback_functionCall: "playback (EboLens_functionCall fc st) = playback st"
  by (simp add: EboLens_functionCall_def Let_def playback_startRec) (simp add: playback_def)

lemma playback_functionCalls: "playback (snd (EboLens_functionCalls fcs rs st)) = playback st"
  by (induction fcs rs st rule: EboLens_functionCalls.induct) (simp_all add: playback_functionCall)

lemma playback_functionCalls_eq:
  "EboLens_functionCalls fcs rs st = (r, s') \<Longrightarrow> playback s' = playback st"
  using playback_functionCalls [of fcs rs st] by simp

lemma playback_schedule_eq:
  "playback st = playback st' \<Longrightarrow> playback (schedule t b st) = playback (schedule t b st')"
  by (simp add: playback_def schedule_def Let_def)

lemma EboLens_audio_playback:
  assumes "playback st = playback st'"
  shows "fst (EboLens_audio t a st) = fst (EboLens_audio t a st') \<and>
         playback (snd (EboLens_audio t a st)) = playback (snd (EboLens_audio t a st'))"
proof -
  have o: "outputCtx st = outputCtx st'" using assms by (simp add: playback_def)
  have s: "playback (st\<lparr>isAiSpeaking := True\<rparr>) = playback (st'\<lparr>isAiSpeaking := True\<rparr>)"
    using assms by (simp add: playback_def)
  show ?thesis
    using assms o s playback_schedule_eq [OF s]
    by (auto simp: EboLens_audio_def Let_def split: option.splits sum.splits)
qed

lemma EboLens_onmessage_playback:
  assumes "playback st = playback st'"
  shows "playback (snd (EboLens_onmessage t m st)) = playback (snd (EboLens_onmessage t m st'))"
proof -
  have a: "isActive st = isActive st'" using assms by (simp add: playback_def)
  note au = EboLens_audio_playback [OF assms, of t "msg_audio m"]
  show ?thesis
  proof (cases "isActive st")
    case False
    with a assms show ?thesis by (simp add: EboLens_onmessage_def)
  next
    case True
    obtain f1 s1 where r1: "EboLens_audio t (msg_audio m) st = (f1, s1)" by force
    obtain f2 s2 where r2: "EboLens_audio t (msg_audio m) st' = (f2, s2)" by force
    from au r1 r2 have f: "f1 = f2" and p: "playback s1 = playback s2" by simp_all
    have k: "playback (s\<lparr>sent := x\<rparr>) = playback s" for s :: lens and x
      by (simp add: playback_def)
    show ?thesis
      using True a f p r1 r2
      by (auto simp: EboLens_onmessage_def k split: option.splits prod.splits
          dest!: playback_functionCalls_eq)
  qed
qed


lemma EboLens_malformed_step:
  assumes "malformed m"
  shows "playback (snd (EboLens_onmessage t m st)) = playback st"
proof -
  obtain b where b: "msg_audio m = Some b" "b \<noteq> []" "isl (decodeAudioData b)"
    using assms by (auto simp: malformed_def split: option.splits)
  then obtain e where e: "decodeAudioData b = Inl e"
    by (cases "decodeAudioData b") auto
  have k: "playback (s\<lparr>sent := x\<rparr>) = playback s" for s :: lens and x
    by (simp add: playback_def)
  have k2: "playback (s\<lparr>isAiSpeaking := x\<rparr>) = playback s" for s :: lens and x
    by (simp add: playback_def)
  show ?thesis
    by (auto simp: EboLens_onmessage_def EboLens_audio_def b e Let_def k k2
        split: option.splits prod.splits dest!: playback_functionCalls_eq)
qed

lemma EboLens_dropped_step:
  "playback (snd (EboLens_onmessage t (drop_fragment m) st)) = playback st"
proof -
  have k: "playback (s\<lparr>sent := x\<rparr>) = playback s" for s :: lens and x
    by (simp add: playback_def)
  show ?thesis
    by (auto simp: EboLens_onmessage_def EboLens_audio_def drop_fragment_def k
        split: option.splits prod.splits dest!: playback_functionCalls_eq)
qed

lemma EboLens_messages_playback:
  "playback st = playback st' \<Longrightarrow>
   playback (EboLens_messages ms st) = playback (EboLens_messages ms st')"
proof (induction ms arbitrary: st st')
  case Nil
  then show ?case by simp
next
  case (Cons e ms)
  obtain t m where e: "e = (t, m)" by (cases e)
  show ?case
    unfolding e EboLens_messages.simps
    by (rule Cons.IH) (rule EboLens_onmessage_playback [OF Cons.prems])
qed

lemma EboLens_messages_append:
  "EboLens_messages (xs @ ys) st = EboLens_messages ys (EboLens_messages xs st)"
  by (induction xs st rule: EboLens_messages.induct) simp_all

lemma LiveMode_messages_append:
  "LiveMode_messages (xs @ ys) st = LiveMode_messages ys (LiveMode_messages xs st)"
  by (induction xs st rule: LiveMode_messages.induct) simp_all

lemma LiveMode_malformed_step:
  assumes "malformed m"
  shows "snd (LiveMode_onmessage t m st) = snd (LiveMode_onmessage t (drop_fragment m) st)"
proof -
  obtain b where b: "msg_audio m = Some b" "b \<noteq> []" "isl (decodeAudioData b)"
    using assms by (auto simp: malformed_def split: option.splits)
  then obtain e where e: "decodeAudioData b = Inl e"
    by (cases "decodeAudioData b") auto
  show ?thesis
    by (auto simp: LiveMode_onmessage_def LiveMode_audio_def drop_fragment_def b e
        split: option.splits prod.splits)
qed

lemma LiveMode_functionCall_clock:
  "LiveMode_functionCall fc st = (f, s') \<Longrightarrow>
   nextStartTime s' = nextStartTime st \<and> started s' = started st"
  by (auto simp: LiveMode_functionCall_def Let_def split: if_splits option.splits)

lemma LiveMode_functionCalls_clock:
  "LiveMode_functionCalls fcs rs st = (f, rs', s') \<Longrightarrow>
   nextStartTime s' = nextStartTime st \<and> started s' = started st"
proof (induction fcs rs st rule: LiveMode_functionCalls.induct)
  case (1 functionResponses st)
  then show ?case by simp
next
  case (2 fc fcs functionResponses st)
  obtain f1 s1 where r: "LiveMode_functionCall fc st = (f1, s1)" by force
  note c = LiveMode_functionCall_clock [OF r]
  show ?case
  proof (cases f1)
    case None
    with 2 r c show ?thesis by simp
  next
    case (Some e)
    with 2 r c show ?thesis by simp
  qed
qed

lemma LiveMode_toolCall_clock:
  "LiveMode_toolCall tc st = (f, s') \<Longrightarrow>
   nextStartTime s' = nextStartTime st \<and> started s' = started st"
  by (auto simp: LiveMode_toolCall_def split: option.splits prod.splits
      dest!: LiveMode_functionCalls_clock)

lemma LiveMode_malformed_clock:
  assumes "malformed m"
  shows "nextStartTime (snd (LiveMode_onmessage t m st)) = nextStartTime st \<and>
         started (snd (LiveMode_onmessage t m st)) = started st"
proof -
  obtain b where b: "msg_audio m = Some b" "b \<noteq> []" "isl (decodeAudioData b)"
    using assms by (auto simp: malformed_def split: option.splits)
  then obtain e where e: "decodeAudioData b = Inl e"
    by (cases "decodeAudioData b") auto
  obtain f1 s1 where r: "LiveMode_toolCall (msg_toolCall m) st = (f1, s1)" by force
  note c = LiveMode_toolCall_clock [OF r]
  show ?thesis
    using c by (cases f1) (simp_all add: LiveMode_onmessage_def LiveMode_audio_def r b e)
qed

text \<open>
  C6. A message whose audio payload fails to decode leaves the playback clock cursor and the
  list of started buffers as they were, in both components, and every later message is
  handled: a run of messages ends with the same cursor and the same started buffers as the
  run in which that message came without its payload.
\<close>

theorem malformed_fragment_skipped:
  assumes "malformed m"
  shows "nextStartTime (snd (EboLens_onmessage t m st)) = nextStartTime st \<and>
         started (snd (EboLens_onmessage t m st)) = started st \<and>
         nextStartTime (EboLens_messages (before @ (t, m) # after) st) =
           nextStartTime (EboLens_messages (before @ (t, drop_fragment m) # after) st) \<and>
         started (EboLens_messages (before @ (t, m) # after) st) =
           started (EboLens_messages (before @ (t, drop_fragment m) # after) st) \<and>
         nextStartTime (snd (LiveMode_onmessage t m st')) = nextStartTime st' \<and>
         started (snd (LiveMode_onmessage t m st')) = started st' \<and>
         LiveMode_messages (before @ (t, m) # after) st' =
           LiveMode_messages (before @ (t, drop_fragment m) # after) st'"
proof -
  have one: "playback (snd (EboLens_onmessage t m s)) =
             playback (snd (EboLens_onmessage t (drop_fragment m) s))" for s
    by (simp add: EboLens_malformed_step [OF assms] EboLens_dropped_step)
  have "playback (EboLens_messages (before @ (t, m) # after) st) =
        playback (EboLens_messages (before @ (t, drop_fragment m) # after) st)"
    by (simp add: EboLens_messages_append EboLens_messages_playback [OF one])
  moreover have "playback (snd (EboLens_onmessage t m st)) = playback st"
    by (rule EboLens_malformed_step [OF assms])
  moreover have "LiveMode_messages (before @ (t, m) # after) st' =
           LiveMode_messages (before @ (t, drop_fragment m) # after) st'"
    by (simp add: LiveMode_messages_append LiveMode_malformed_step [OF assms])
  moreover have "nextStartTime (snd (LiveMode_onmessage t m st')) = nextStartTime st' \<and>
         started (snd (LiveMode_onmessage t m st')) = started st'"
    by (rule LiveMode_malformed_clock [OF assms])
  ultimately show ?thesis
    by (simp add: playback_def)
qed


lemma decode_bad: "decodeAudioData ''!!!'' = Inl InvalidCharacterError"
  by (simp add: decodeAudioData_def atob_def strip_padding_def ascii_whitespace_def
      b64_alphabet_def)

theorem malformed_fragment_skipped_witness:
  "malformed bad_message \<and>
   fst (EboLens_onmessage 0 bad_message (EboLens_open [])) = Some InvalidCharacterError \<and>
   nextStartTime (snd (EboLens_onmessage 0 bad_message (EboLens_open []))) = 0 \<and>
   started (EboLens_messages ([] @ (0, bad_message) # bad_then_good) (EboLens_open [])) =
     [(1, [0, 0])] \<and>
   started (EboLens_messages ([] @ (0, drop_fragment bad_message) # bad_then_good) (EboLens_open [])) =
     [(1, [0, 0])]"
proof -
  have m: "malformed bad_message"
    by (simp add: malformed_def bad_message_def decode_bad)
  have f: "fst (EboLens_onmessage 0 bad_message (EboLens_open [])) = Some InvalidCharacterError"
    by (simp add: EboLens_onmessage_def EboLens_audio_def bad_message_def decode_bad
        EboLens_open_def)
  have z: "nextStartTime (EboLens_open []) = 0"
    by (simp add: EboLens_open_def)
  have r: "started (EboLens_messages ([] @ (0, drop_fragment bad_message) # bad_then_good)
             (EboLens_open [])) = [(1, [0, 0])]"
    by (simp add: EboLens_onmessage_def EboLens_audio_def bad_message_def drop_fragment_def
        bad_then_good_def decode_zeros EboLens_open_def schedule_def)
  from malformed_fragment_skipped [OF m, of 0 "EboLens_open []" "[]" bad_then_good] m f z r
  show ?thesis by simp
qed

section \<open>Overlay states\<close>

lemma startNavigation_overlays:
  assumes "fc_name fc = JStr ''startNavigation''" and "fc_args fc = Some args"
  shows "navData (snd (LiveMode_functionCall fc st)) \<noteq> None \<and>
         generatedImage (snd (LiveMode_functionCall fc st)) = None \<and>
         \<not> isAnalyzing (snd (LiveMode_functionCall fc st))"
  using assms by (simp add: LiveMode_functionCall_def)

lemma generateHologram_overlays:
  assumes "fc_name fc = JStr ''generateHologram''" and "fc_args fc = Some args"
  shows "navData (snd (LiveMode_functionCall fc st)) = None \<and>
         generatedImage (snd (LiveMode_functionCall fc st)) \<noteq> None \<and>
         \<not> isAnalyzing (snd (LiveMode_functionCall fc st))"
  using assms by (simp add: LiveMode_functionCall_def)

lemma stopSystem_overlays:
  assumes "fc_name fc = JStr ''stopSystem''"
  shows "LiveMode_functionCall fc st =
           (None, st\<lparr>navData := None, generatedImage := None, isAnalyzing := False\<rparr>) \<and>
         overlays (snd (LiveMode_functionCall fc st)) = 0"
  using assms by (simp add: LiveMode_functionCall_def overlays_def)

lemma analyzeSurroundings_overlays:
  assumes "fc_name fc = JStr ''analyzeSurroundings''"
  shows "navData (snd (LiveMode_functionCall fc st)) = None \<and>
         isAnalyzing (snd (LiveMode_functionCall fc st)) \<and>
         generatedImage (snd (LiveMode_functionCall fc st)) = generatedImage st"
  using assms by (simp add: LiveMode_functionCall_def Let_def split: option.splits)

text \<open>
  C4 fails on the code: \<open>analyzeSurroundings\<close> sets the analyzing flag and clears the
  navigation overlay but leaves the generated image, which \<open>startNavigation\<close>,
  \<open>generateHologram\<close> and \<open>stopSystem\<close> each clear. After a hologram and an analysis two
  overlays are shown at once.
\<close>

theorem analyze_keeps_hologram:
  "generatedImage (snd (LiveMode_onmessage 0 (tool_message hologram_then_analyze)
                          (LiveMode_open (Some ''/9j/'')))) =
     Some (Unsplash_futuristic (JStr ''city'')) \<and>
   isAnalyzing (snd (LiveMode_onmessage 0 (tool_message hologram_then_analyze)
                       (LiveMode_open (Some ''/9j/'')))) \<and>
   overlays (snd (LiveMode_onmessage 0 (tool_message hologram_then_analyze)
                    (LiveMode_open (Some ''/9j/'')))) = 2"
  by (simp add: LiveMode_onmessage_def LiveMode_toolCall_def LiveMode_audio_def tool_message_def
      hologram_then_analyze_def call_def LiveMode_functionCall_def LiveMode_open_def overlays_def
      js_get_def)

section \<open>Acknowledgments\<close>

lemma EboLens_functionCalls_acks:
  "fst (EboLens_functionCalls fcs responses st) = responses @ map (ack Ok_true) fcs"
  by (induction fcs responses st rule: EboLens_functionCalls.induct) (simp_all add: ack_def)

lemma EboLens_onmessage_acks:
  assumes "isActive st" and "msg_toolCall msg = Some fcs"
    and "fst (EboLens_audio t (msg_audio msg) st) = None"
  shows "\<exists>others. sent (snd (EboLens_onmessage t msg st)) =
           others @ [SendToolResponse (map (ack Ok_true) fcs)]"
proof -
  obtain s1 where a: "EboLens_audio t (msg_audio msg) st = (None, s1)"
    using assms(3) by (cases "EboLens_audio t (msg_audio msg) st") auto
  obtain rs s2 where f: "EboLens_functionCalls fcs [] s1 = (rs, s2)" by force
  have "rs = map (ack Ok_true) fcs"
    using EboLens_functionCalls_acks [of fcs "[]" s1] f by simp
  then show ?thesis
    using assms a f by (simp add: EboLens_onmessage_def)
qed

lemma LiveMode_functionCalls_acks:
  "LiveMode_functionCalls fcs responses st = (None, rs, s') \<Longrightarrow>
   rs = responses @ map (ack Status_ok) fcs"
proof (induction fcs responses st rule: LiveMode_functionCalls.induct)
  case (1 functionResponses st)
  then show ?case by simp
next
  case (2 fc fcs functionResponses st)
  obtain f1 s1 where r: "LiveMode_functionCall fc st = (f1, s1)" by force
  show ?case
  proof (cases f1)
    case None
    with 2 r show ?thesis by (simp add: ack_def)
  next
    case (Some e)
    with 2 r show ?thesis by simp
  qed
qed

lemma LiveMode_functionCall_no_fault:
  assumes "fc_args fc \<noteq> None" and "videoCanvas st \<longrightarrow> canvas_blob st \<noteq> None"
  shows "fst (LiveMode_functionCall fc st) = None \<and>
         videoCanvas (snd (LiveMode_functionCall fc st)) = videoCanvas st \<and>
         canvas_blob (snd (LiveMode_functionCall fc st)) = canvas_blob st"
  using assms by (auto simp: LiveMode_functionCall_def Let_def split: option.splits)

lemma LiveMode_functionCalls_no_fault:
  assumes "list_all (\<lambda>fc. fc_args fc \<noteq> None) fcs" and "videoCanvas st \<longrightarrow> canvas_blob st \<noteq> None"
  shows "fst (LiveMode_functionCalls fcs responses st) = None"
  using assms
proof (induction fcs responses st rule: LiveMode_functionCalls.induct)
  case (1 functionResponses st)
  then show ?case by simp
next
  case (2 fc fcs functionResponses st)
  obtain f1 s1 where r: "LiveMode_functionCall fc st = (f1, s1)" by force
  have "fc_args fc \<noteq> None" using 2(2) by simp
  from LiveMode_functionCall_no_fault [OF this 2(3)] r
  have f1: "f1 = None" and v: "videoCanvas s1 \<longrightarrow> canvas_blob s1 \<noteq> None"
    using 2(3) by simp_all
  show ?case
    using 2(1) [OF r [unfolded f1, symmetric]] 2(2) v r f1 by simp
qed

text \<open>
  C3 fails on LiveMode.tsx: a call of \<open>generateHologram\<close> (or \<open>startNavigation\<close>) without
  \<open>args\<close> throws inside the loop, the handler rejects before \<open>sendToolResponse\<close>, and no
  call of the batch is acknowledged. The loop of EboLens.tsx, which reads
  \<open>(fc.args as any)?.duration\<close>, acknowledges every call (\<open>EboLens_onmessage_acks\<close>).
\<close>

theorem batch_without_args_unacknowledged:
  "fst (LiveMode_onmessage 0 (tool_message batch_without_args) (LiveMode_open None)) =
     Some TypeError \<and>
   sent (snd (LiveMode_onmessage 0 (tool_message batch_without_args) (LiveMode_open None))) = []"
  by (simp add: LiveMode_onmessage_def LiveMode_toolCall_def tool_message_def
      batch_without_args_def call_def LiveMode_functionCall_def LiveMode_open_def)


section \<open>Teardown\<close>

lemma EboLens_onaudioprocess_after_cleanup:
  "EboLens_onaudioprocess samples (EboLens_cleanup st) = EboLens_cleanup st"
  by (simp add: EboLens_onaudioprocess_def EboLens_cleanup_def)

lemma EboLens_onmessage_after_cleanup:
  "EboLens_onmessage t msg (EboLens_cleanup st) = (None, EboLens_cleanup st)"
  by (simp add: EboLens_onmessage_def EboLens_cleanup_def)

lemma LiveMode_onmessage_after_cleanup:
  "LiveMode_onmessage t msg (LiveMode_cleanup st) = (None, LiveMode_cleanup st)"
  by (simp add: LiveMode_onmessage_def LiveMode_cleanup_def)

lemma LiveMode_onaudioprocess_after_cleanup:
  "sent (LiveMode_onaudioprocess samples (LiveMode_cleanup st)) =
     sent st @ [SendRealtimeInput (createAudioBlob samples)]"
  by (simp add: LiveMode_onaudioprocess_def LiveMode_cleanup_def Let_def)

text \<open>
  C7 fails on LiveMode.tsx: its \<open>onaudioprocess\<close> checks \<open>mountedRef\<close> for the meter only
  and sends the frame whether or not the component is still mounted. The \<open>onaudioprocess\<close>
  of EboLens.tsx returns at once when inactive (\<open>EboLens_onaudioprocess_after_cleanup\<close>).
\<close>

theorem frame_after_teardown_is_sent:
  "sent (LiveMode_cleanup (LiveMode_open None)) = [] \<and>
   sent (LiveMode_onaudioprocess (replicate 4096 0) (LiveMode_cleanup (LiveMode_open None))) =
     [SendRealtimeInput (createAudioBlob (replicate 4096 0))]"
  by (simp add: LiveMode_onaudioprocess_def LiveMode_cleanup_def LiveMode_open_def Let_def)

section \<open>Recording\<close>

lemma startRec_guard:
  "startRec True sec st = st"
  by (simp add: startRec_def)

lemma record_video_clip_default:
  assumes "fc_name fc = JStr ''record_video_clip''" and "stream st"
    and "fc_args fc = None \<or> (\<exists>args. fc_args fc = Some args \<and> \<not> truthy (js_get args ''duration''))"
  shows "recorders (EboLens_functionCall fc st) =
           recorders st @ [\<lparr>rec_sec = JNum 10, rec_recording = True\<rparr>] \<and>
         timers (EboLens_functionCall fc st) =
           timers st @ [StopRecorder (length (recorders st)) (JNum 10)]"
  using assms
  by (auto simp: EboLens_functionCall_def startRec_def isRecording_first_render_def js_or_def)

lemma recorder_timer_download:
  assumes "i < length (recorders st)" and "rec_recording (recorders st ! i)"
  shows "downloads (recorder_timer i now_ms st) =
           downloads st @ [''EBO_REC_'' @ show_nat now_ms @ ''.webm''] \<and>
         \<not> rec_recording (recorders (recorder_timer i now_ms st) ! i) \<and>
         \<not> isRecording (recorder_timer i now_ms st)"
  using assms by (simp add: recorder_timer_def)

text \<open>
  C9 fails on the code: the guard of \<open>startRec\<close> reads the \<open>isRecording\<close> of the first
  render, which stays \<open>false\<close>, so a second \<open>record_video_clip\<close> call starts a second
  recorder while the first is still recording, whether it comes in the same batch or in a
  later message.
\<close>

theorem second_clip_starts_while_recording:
  "isRecording (EboLens_messages (take 1 clip_messages) (EboLens_open [])) \<and>
   recorders (EboLens_messages clip_messages (EboLens_open [])) =
     [\<lparr>rec_sec = JNum 10, rec_recording = True\<rparr>, \<lparr>rec_sec = JNum 3, rec_recording = True\<rparr>] \<and>
   recorders (snd (EboLens_onmessage 0 (tool_message two_clips) (EboLens_open []))) =
     [\<lparr>rec_sec = JNum 10, rec_recording = True\<rparr>, \<lparr>rec_sec = JNum 3, rec_recording = True\<rparr>]"
  by (simp add: clip_messages_def two_clips_def tool_message_def call_def EboLens_onmessage_def
      EboLens_audio_def EboLens_functionCall_def startRec_def isRecording_first_render_def
      js_or_def js_get_def EboLens_open_def)

section \<open>Navigation defaults\<close>

lemma missing_or_empty_falsy: "missing_or_empty v \<Longrightarrow> \<not> truthy v"
  by (auto simp: missing_or_empty_def)

lemma js_get_absent: "map_of args k = None \<Longrightarrow> missing_or_empty (js_get args k)"
  by (simp add: js_get_def missing_or_empty_def)

text \<open>
  For every \<open>startNavigation\<close> call that carries an argument object, the navigation
  overlay is set with \<open>eta\<close> the constant \<open>5 min\<close>, whatever the arguments; a direction
  that is absent, \<open>null\<close> or empty becomes \<open>STRAIGHT\<close>, a distance that is absent, \<open>null\<close>
  or empty becomes \<open>...\<close>, and a non-empty one is kept.
\<close>

lemma startNavigation_defaults:
  assumes "fc_name fc = JStr ''startNavigation''" and "fc_args fc = Some args"
    and "nd = the (navData (snd (LiveMode_functionCall fc st)))"
  shows "fst (LiveMode_functionCall fc st) = None \<and>
         navData (snd (LiveMode_functionCall fc st)) = Some nd \<and>
         nav_isActive nd \<and> destination nd = js_get args ''destination'' \<and>
         eta nd = ''5 min'' \<and>
         direction nd = (if missing_or_empty (js_get args ''direction'') then JStr ''STRAIGHT''
                         else js_or (js_get args ''direction'') (JStr ''STRAIGHT'')) \<and>
         distance nd = (if missing_or_empty (js_get args ''estimatedDistance'') then JStr ''...''
                        else js_or (js_get args ''estimatedDistance'') (JStr ''...'')) \<and>
         (truthy (js_get args ''direction'') \<longrightarrow> direction nd = js_get args ''direction'') \<and>
         (truthy (js_get args ''estimatedDistance'')
            \<longrightarrow> distance nd = js_get args ''estimatedDistance'')"
  using assms missing_or_empty_falsy
  by (auto simp: LiveMode_functionCall_def js_or_def)

lemma startNavigation_defaults_example:
  "fc_name navigate_museum = JStr ''startNavigation'' \<and>
   fc_args navigate_museum =
     Some [(''destination'', JStr ''Museum''), (''direction'', JStr [])] \<and>
   navData (snd (LiveMode_functionCall navigate_museum (LiveMode_open None))) =
     Some \<lparr>nav_isActive = True, destination = JStr ''Museum'', direction = JStr ''STRAIGHT'',
           distance = JStr ''...'', eta = ''5 min''\<rparr>"
proof -
  have n: "fc_name navigate_museum = JStr ''startNavigation''"
    by (simp add: navigate_museum_def call_def)
  have a: "fc_args navigate_museum =
      Some [(''destination'', JStr ''Museum''), (''direction'', JStr [])]"
    by (simp add: navigate_museum_def call_def)
  have m: "missing_or_empty (js_get [(''destination'', JStr ''Museum''), (''direction'', JStr [])] ''direction'')"
      "missing_or_empty (js_get [(''destination'', JStr ''Museum''), (''direction'', JStr [])] ''estimatedDistance'')"
      "js_get [(''destination'', JStr ''Museum''), (''direction'', JStr [])] ''destination'' = JStr ''Museum''"
    by (simp_all add: js_get_def missing_or_empty_def)
  have eq: "x = \<lparr>nav_isActive = True, destination = JStr ''Museum'', direction = JStr ''STRAIGHT'',
           distance = JStr ''...'', eta = ''5 min''\<rparr>"
    if "nav_isActive x" "destination x = JStr ''Museum''" "direction x = JStr ''STRAIGHT''"
       "distance x = JStr ''...''" "eta x = ''5 min''" for x :: navigation_data
    using that by (cases x) simp
  define nd where "nd = the (navData (snd (LiveMode_functionCall navigate_museum (LiveMode_open None))))"
  note t = startNavigation_defaults [OF n a nd_def]
  have 1: "navData (snd (LiveMode_functionCall navigate_museum (LiveMode_open None))) = Some nd"
    using t by blast
  have 2: "nav_isActive nd" "eta nd = ''5 min''"
    using t by blast+
  have 3: "destination nd = JStr ''Museum''"
    using t m(3) by simp
  have 4: "direction nd = JStr ''STRAIGHT''"
    using t m(1) by simp
  have 5: "distance nd = JStr ''...''"
    using t m(2) by simp
  have "nd = \<lparr>nav_isActive = True, destination = JStr ''Museum'', direction = JStr ''STRAIGHT'',
           distance = JStr ''...'', eta = ''5 min''\<rparr>"
    by (rule eq [OF 2(1) 3 4 5 2(2)])
  with 1 n a show ?thesis by simp
qed

section \<open>Base64 and the PCM round trip\<close>

lemma length_b64_alphabet: "length b64_alphabet = 64"
  by (simp add: b64_alphabet_def)

lemma distinct_b64_alphabet: "distinct b64_alphabet"
  by (simp add: b64_alphabet_def)

lemma eq_notin_b64_alphabet: "CHR ''='' \<notin> set b64_alphabet"
  by (simp add: b64_alphabet_def)

lemma b64_alphabet_no_whitespace: "c \<in> set b64_alphabet \<Longrightarrow> \<not> ascii_whitespace c"
  by (auto simp: b64_alphabet_def ascii_whitespace_def)

lemma eq_no_whitespace: "\<not> ascii_whitespace CHR ''=''"
  by (simp add: ascii_whitespace_def)

lemma index_of_nth: "distinct xs \<Longrightarrow> i < length xs \<Longrightarrow> index_of xs (xs ! i) = Some i"
proof (induction xs arbitrary: i)
  case Nil
  then show ?case by simp
next
  case (Cons x xs)
  show ?case
  proof (cases i)
    case 0
    then show ?thesis by simp
  next
    case (Suc j)
    with Cons.prems have "xs ! j \<in> set xs" "x \<notin> set xs" by auto
    then have "x \<noteq> xs ! j" by blast
    with Suc Cons show ?thesis by simp
  qed
qed

lemma b64_char_in: "n < 64 \<Longrightarrow> b64_char n \<in> set b64_alphabet"
  by (simp add: b64_char_def length_b64_alphabet)

lemma index_of_b64_char: "n < 64 \<Longrightarrow> index_of b64_alphabet (b64_char n) = Some n"
  unfolding b64_char_def
  by (rule index_of_nth [OF distinct_b64_alphabet]) (simp add: length_b64_alphabet)

lemma those_index_of:
  "list_all (\<lambda>n. n < 64) sx \<Longrightarrow> those (map (index_of b64_alphabet) (map b64_char sx)) = Some sx"
  by (induction sx) (simp_all add: index_of_b64_char)

lemma btoa_groups_parts:
  "btoa_groups bs = map b64_char (b64_sextets bs) @ replicate (b64_pad bs) CHR ''=''"
  by (induction bs rule: btoa_groups.induct) (simp_all add: numeral_2_eq_2)

lemma sextet_bounds:
  fixes a b c :: nat
  assumes "a < 256" and "b < 256" and "c < 256"
  shows "a div 4 < 64" "a mod 4 * 16 < 64" "a mod 4 * 16 + b div 16 < 64" "b mod 16 * 4 < 64"
    "b mod 16 * 4 + c div 64 < 64" "c mod 64 < 64" "b div 16 < 16" "c div 64 < 4"
proof -
  have a4: "a mod 4 < 4" and b16: "b mod 16 < 16" by simp_all
  show bd: "b div 16 < 16" and cd: "c div 64 < 4" and "a div 4 < 64"
    using assms by (simp_all add: div_less_iff_less_mult)
  show "a mod 4 * 16 < 64" using a4 by linarith
  show "a mod 4 * 16 + b div 16 < 64" using a4 bd by linarith
  show "b mod 16 * 4 < 64" using b16 by linarith
  show "b mod 16 * 4 + c div 64 < 64" using b16 cd by linarith
  show "c mod 64 < 64" by simp
qed

lemma sextet_inverse:
  fixes a b c :: nat
  assumes "a < 256" and "b < 256" and "c < 256"
  shows "a div 4 * 4 + (a mod 4 * 16 + b div 16) div 16 = a"
    and "(a mod 4 * 16 + b div 16) mod 16 * 16 + (b mod 16 * 4 + c div 64) div 4 = b"
    and "(b mod 16 * 4 + c div 64) mod 4 * 64 + c mod 64 = c"
    and "a div 4 * 4 + a mod 4 * 16 div 16 = a"
    and "(a mod 4 * 16 + b div 16) mod 16 * 16 + b mod 16 * 4 div 4 = b"
proof -
  have bd: "b div 16 < 16" and cd: "c div 64 < 4"
    using assms by (simp_all add: div_less_iff_less_mult)
  have 1: "(a mod 4 * 16 + b div 16) div 16 = a mod 4" using bd by simp
  have 2: "(a mod 4 * 16 + b div 16) mod 16 = b div 16" using bd by simp
  have 3: "(b mod 16 * 4 + c div 64) div 4 = b mod 16" using cd by simp
  have 4: "(b mod 16 * 4 + c div 64) mod 4 = c div 64" using cd by simp
  show "a div 4 * 4 + (a mod 4 * 16 + b div 16) div 16 = a"
    unfolding 1 by simp
  show "(a mod 4 * 16 + b div 16) mod 16 * 16 + (b mod 16 * 4 + c div 64) div 4 = b"
    unfolding 2 3 by simp
  show "(b mod 16 * 4 + c div 64) mod 4 * 64 + c mod 64 = c"
    unfolding 4 by simp
  show "a div 4 * 4 + a mod 4 * 16 div 16 = a"
    by simp
  show "(a mod 4 * 16 + b div 16) mod 16 * 16 + b mod 16 * 4 div 4 = b"
    unfolding 2 by simp
qed

lemma b64_sextets_bound:
  "list_all (\<lambda>b. b < 256) bs \<Longrightarrow> list_all (\<lambda>n. n < 64) (b64_sextets bs)"
proof (induction bs rule: b64_sextets.induct)
  case 1
  show ?case by simp
next
  case (2 a)
  then show ?case by (simp add: sextet_bounds [of a a a])
next
  case (3 a b)
  then show ?case by (simp add: sextet_bounds [of a b b])
next
  case (4 a b c rest)
  then show ?case by (simp add: sextet_bounds [of a b c])
qed

lemma b64_length: "(length (b64_sextets bs) + b64_pad bs) mod 4 = 0 \<and> b64_pad bs \<le> 2"
  by (induction bs rule: b64_sextets.induct) simp_all

lemma b64_sextets_length_mod: "length (b64_sextets bs) mod 4 \<noteq> 1"
  by (induction bs rule: b64_sextets.induct) simp_all

lemma atob_groups_sextets:
  "list_all (\<lambda>b. b < 256) bs \<Longrightarrow> atob_groups (b64_sextets bs) = bs"
proof (induction bs rule: b64_sextets.induct)
  case 1
  show ?case by simp
next
  case (2 a)
  then have "a < 256" by simp
  from sextet_inverse(4) [OF this this this] show ?case
    by (simp only: b64_sextets.simps atob_groups.simps)
next
  case (3 a b)
  then have "a < 256" "b < 256" by simp_all
  from sextet_inverse(1,5) [OF this this(2)] show ?case
    by (simp only: b64_sextets.simps atob_groups.simps)
next
  case (4 a b c rest)
  then have "a < 256" "b < 256" "c < 256" and r: "atob_groups (b64_sextets rest) = rest"
    by simp_all
  from sextet_inverse(1,2,3) [OF this(1,2,3)] r show ?case
    by (simp only: b64_sextets.simps atob_groups.simps append.simps)
qed


lemma strip_padding_parts:
  assumes "CHR ''='' \<notin> set cs" and "p \<le> 2"
    and "(length cs + p) mod 4 = 0"
  shows "strip_padding (cs @ replicate p CHR ''='') = cs"
proof -
  consider "p = 0" | "p = 1" | "p = 2" using assms(2) by linarith
  then show ?thesis
  proof cases
    case 1
    show ?thesis
    proof (cases "cs = []")
      case True
      with 1 show ?thesis by (simp add: strip_padding_def)
    next
      case False
      then have "last cs \<in> set cs" by simp
      with assms(1) have "last cs \<noteq> CHR ''=''" by metis
      with 1 False show ?thesis by (simp add: strip_padding_def)
    qed
  next
    case 2
    have b: "butlast (cs @ [CHR ''='']) = cs" by simp
    have "cs \<noteq> [] \<Longrightarrow> last cs \<noteq> CHR ''=''"
      using assms(1) last_in_set by metis
    with 2 assms(3) show ?thesis
      by (auto simp: strip_padding_def b)
  next
    case 3
    have r: "replicate p CHR ''='' = [CHR ''='', CHR ''='']"
      using 3 by (simp add: numeral_2_eq_2)
    have b: "butlast (cs @ [CHR ''='', CHR ''='']) = cs @ [CHR ''='']"
      by (simp add: butlast_append)
    have "strip_padding (cs @ [CHR ''='', CHR ''='']) = cs"
      using 3 assms(3) by (simp add: strip_padding_def b)
    then show ?thesis
      by (simp only: r)
  qed
qed

lemma atob_btoa: "atob (btoa s) = Inr s"
proof -
  define bs :: "nat list" where "bs = map of_char s"
  have bound: "list_all (\<lambda>b. b < 256) bs"
    by (simp add: bs_def list_all_iff)
  note sx = b64_sextets_bound [OF bound]
  define cs where "cs = map b64_char (b64_sextets bs)"
  have in_alpha: "set cs \<subseteq> set b64_alphabet"
    using sx by (auto simp: cs_def list_all_iff b64_char_in)
  have no_eq: "CHR ''='' \<notin> set cs"
    using in_alpha eq_notin_b64_alphabet by blast
  have enc: "btoa s = cs @ replicate (b64_pad bs) CHR ''=''"
    by (simp add: btoa_def bs_def [symmetric] btoa_groups_parts cs_def)
  have "filter (\<lambda>c. \<not> ascii_whitespace c) cs = cs"
    using in_alpha b64_alphabet_no_whitespace by (auto simp: filter_id_conv)
  then have filt: "filter (\<lambda>c. \<not> ascii_whitespace c) (btoa s) = btoa s"
    by (simp add: enc eq_no_whitespace)
  have len: "(length cs + b64_pad bs) mod 4 = 0" and pad: "b64_pad bs \<le> 2"
    using b64_length [of bs] by (simp_all add: cs_def)
  have strip: "strip_padding (btoa s) = cs"
    unfolding enc by (rule strip_padding_parts [OF no_eq pad len])
  have lmod: "length cs mod 4 \<noteq> 1"
    using b64_sextets_length_mod [of bs] by (simp add: cs_def)
  have idx: "those (map (index_of b64_alphabet) cs) = Some (b64_sextets bs)"
    unfolding cs_def by (rule those_index_of [OF sx])
  have "map char_of bs = s"
    by (simp add: bs_def)
  then have dec: "map char_of (atob_groups (b64_sextets bs)) = s"
    by (simp only: atob_groups_sextets [OF bound])
  show ?thesis
    using lmod by (simp add: atob_def Let_def filt strip idx dec)
qed


lemma unat_byte_char: "word_of_nat (of_char (char_of (unat (b :: byte)))) = b"
proof -
  have "unat b < 256" using unsigned_less [of b] by simp
  then show ?thesis by simp
qed

lemma atob_encode: "atob (encode bytes) = Inr (map (\<lambda>b. char_of (unat b)) bytes)"
  by (simp add: encode_def atob_btoa)

lemma encodeBase64_encode: "encodeBase64 bytes = encode bytes"
  by (simp add: encode_def encodeBase64_def)

lemma createAudioBlob_createBlob: "createAudioBlob samples = createBlob samples"
  by (simp add: createAudioBlob_def createBlob_def encodeBase64_encode)

lemma int16_of_bytes: "word_of_nat (unat (word_of_nat (unat w mod 256) :: byte) +
    256 * unat (word_of_nat (unat w div 256) :: byte)) = (w :: int16)"
proof -
  have w: "unat w < 65536" using unsigned_less [of w] by simp
  then have d: "unat w div 256 < 256" by (simp add: div_less_iff_less_mult)
  have 1: "unat (word_of_nat (unat w mod 256) :: byte) = unat w mod 256"
    by (simp add: unat_of_nat)
  have 2: "unat (word_of_nat (unat w div 256) :: byte) = unat w div 256"
    using d by (simp add: unat_of_nat)
  show ?thesis
    unfolding 1 2 by simp
qed

lemma Int16Array_pair:
  "Int16Array_of_bytes (int16_bytes w @ rest) =
     (case Int16Array_of_bytes rest of Inl e \<Rightarrow> Inl e | Inr ws \<Rightarrow> Inr (w # ws))"
  by (simp only: int16_bytes_def append.simps Int16Array_of_bytes.simps int16_of_bytes)

lemma Int16Array_roundtrip: "Int16Array_of_bytes (Uint8Array_of_Int16Array ws) = Inr ws"
  by (induction ws) (simp_all add: Uint8Array_of_Int16Array_def Int16Array_pair)

lemma length_pcm_bytes: "length (pcm_bytes samples) = 2 * length samples"
  by (induction samples) (simp_all add: pcm_bytes_def Uint8Array_of_Int16Array_def int16_bytes_def)

lemma decode_createBlob:
  assumes "samples \<noteq> []"
  shows "decodeAudioData (data (createBlob samples)) =
           Inr (map (\<lambda>x. real_of_int (sint (ToInt16 (x * 32768))) / 32768) samples)"
proof -
  have a: "atob (data (createBlob samples)) = Inr (map (\<lambda>b. char_of (unat b)) (pcm_bytes samples))"
    by (simp add: createBlob_def atob_encode pcm_bytes_def)
  have b: "map (\<lambda>c. word_of_nat (of_char c)) (map (\<lambda>b. char_of (unat b)) (pcm_bytes samples))
             = pcm_bytes samples"
    by (simp only: map_map comp_def unat_byte_char map_ident)
  have c: "Int16Array_of_bytes (pcm_bytes samples) = Inr (map (\<lambda>x. ToInt16 (x * 32768)) samples)"
    by (simp add: pcm_bytes_def Int16Array_roundtrip)
  have d: "decodeAudioData (data (createBlob samples)) =
      (if map (\<lambda>x. ToInt16 (x * 32768)) samples = [] then Inl NotSupportedError
       else Inr (map (\<lambda>w. real_of_int (sint w) / 32768) (map (\<lambda>x. ToInt16 (x * 32768)) samples)))"
    by (simp only: decodeAudioData_def a b c sum.case)
  show ?thesis
    using assms by (simp add: d comp_def)
qed

lemma js_trunc_error: "\<bar>real_of_int (js_trunc y) - y\<bar> < 1"
  unfolding js_trunc_def by (auto; linarith)

lemma ToInt16_in_range:
  assumes "- 1 \<le> x" and "x < 1"
  shows "sint (ToInt16 (x * 32768)) = js_trunc (x * 32768)"
proof -
  have lo: "- 32768 \<le> js_trunc (x * 32768)"
    using assms unfolding js_trunc_def by (auto simp: le_floor_iff le_ceiling_iff)
  have hi: "js_trunc (x * 32768) < 32768"
    using assms unfolding js_trunc_def by (auto simp: floor_less_iff ceiling_less_iff)
  show ?thesis
    unfolding ToInt16_def using lo hi
    by (simp add: sint_sbintrunc' signed_take_bit_int_eq_self)
qed

lemma quantization:
  assumes "- 1 \<le> x" and "x < 1"
  shows "\<bar>real_of_int (sint (ToInt16 (x * 32768))) / 32768 - x\<bar> < 1 / 32768"
proof -
  have "\<bar>real_of_int (js_trunc (x * 32768)) - x * 32768\<bar> < 1"
    by (rule js_trunc_error)
  then show ?thesis
    unfolding ToInt16_in_range [OF assms] by (simp add: abs_less_iff field_simps)
qed

lemma pcm_roundtrip:
  assumes "samples \<noteq> []" and "i < length samples"
    and "- 1 \<le> samples ! i" and "samples ! i < 1"
  shows "\<exists>decoded. decodeAudioData (data (createBlob samples)) = Inr decoded \<and>
           length decoded = length samples \<and>
           \<bar>decoded ! i - samples ! i\<bar> < 1 / 32768"
proof -
  define decoded where
    "decoded = map (\<lambda>x. real_of_int (sint (ToInt16 (x * 32768))) / 32768) samples"
  have 1: "decodeAudioData (data (createBlob samples)) = Inr decoded"
    unfolding decoded_def by (rule decode_createBlob [OF assms(1)])
  have 2: "length decoded = length samples"
    by (simp add: decoded_def)
  have "decoded ! i = real_of_int (sint (ToInt16 (samples ! i * 32768))) / 32768"
    unfolding decoded_def by (rule nth_map [OF assms(2)])
  then have 3: "\<bar>decoded ! i - samples ! i\<bar> < 1 / 32768"
    using quantization [OF assms(3,4)] by (simp only:)
  from 1 2 3 show ?thesis by blast
qed

text \<open>
  C2 fails on the code at the sample 1.0: \<open>1.0 * 32768\<close> is 32768, which the
  \<open>Int16Array\<close> stores as -32768, so the sample comes back as -1.0, off by 2. Every sample
  from -1 up to, but not including, 1 comes back within 1/32768 (\<open>pcm_roundtrip\<close>).
\<close>

theorem full_scale_sample_wraps:
  "decodeAudioData (data (createBlob [1])) = Inr [- 1] \<and>
   decodeAudioData (data (createAudioBlob [1])) = Inr [- 1] \<and>
   \<not> \<bar>(- 1 :: real) - 1\<bar> \<le> 1 / 32768"
  by (simp add: createAudioBlob_createBlob decode_createBlob ToInt16_def js_trunc_def)

section \<open>The volume meter\<close>

lemma foldl_squares: "foldl (\<lambda>sum x. sum + x * x) a xs = a + sum_list (map (\<lambda>x. x * x) xs)"
  for a :: real
  by (induction xs arbitrary: a) simp_all

lemma squares_bounds:
  assumes "normalized xs"
  shows "0 \<le> sum_list (map (\<lambda>x. x * x) xs) \<and> sum_list (map (\<lambda>x. x * x) xs) \<le> real (length xs)"
  using assms
proof (induction xs)
  case Nil
  show ?case by simp
next
  case (Cons x xs)
  then have x: "- 1 \<le> x" "x \<le> 1" and n: "normalized xs"
    by (simp_all add: normalized_def)
  have "\<bar>x\<bar> \<le> 1" using x by (simp add: abs_le_iff)
  then have "x * x \<le> 1"
    using abs_square_le_1 [of x] by (simp add: power2_eq_square)
  moreover have "0 \<le> x * x" by simp
  ultimately show ?case using Cons.IH [OF n] by simp
qed

lemma rms_range:
  assumes "samples \<noteq> []" and "normalized samples"
  shows "\<exists>r. rms samples = Some r \<and> 0 \<le> r \<and> r \<le> 1"
proof -
  let ?s = "sum_list (map (\<lambda>x. x * x) samples)"
  have len: "0 < real (length samples)" using assms(1) by simp
  note b = squares_bounds [OF assms(2)]
  have q: "0 \<le> ?s / real (length samples)" "?s / real (length samples) \<le> 1"
    using b len by (simp_all add: divide_le_eq)
  have "sqrt (?s / real (length samples)) \<le> 1"
    using q(2) by (simp add: real_sqrt_le_1_iff)
  moreover have "0 \<le> sqrt (?s / real (length samples))"
    using q(1) by simp
  ultimately show ?thesis
    using assms(1) by (simp add: rms_def foldl_squares)
qed

lemma rms_replicate_one: "0 < n \<Longrightarrow> rms (replicate n 1) = Some 1"
  by (simp add: rms_def foldl_squares sum_list_replicate map_replicate_const)

text \<open>
  C8, as amended. For a non-empty frame of samples between -1 and 1 the meter of
  LiveMode.tsx, \<open>sqrt(sum / length) * 100\<close>, lies between 0 and 100; the meter of
  EboLens.tsx, \<open>rms * 200\<close>, lies between 0 and 200.
\<close>

theorem volume_range:
  assumes "samples \<noteq> []" and "normalized samples" and "mounted st" and "isActive st'"
  shows "volume (LiveMode_onaudioprocess samples st) \<noteq> None \<and>
         0 \<le> the (volume (LiveMode_onaudioprocess samples st)) \<and>
         the (volume (LiveMode_onaudioprocess samples st)) \<le> 100 \<and>
         volume (EboLens_onaudioprocess samples st') \<noteq> None \<and>
         0 \<le> the (volume (EboLens_onaudioprocess samples st')) \<and>
         the (volume (EboLens_onaudioprocess samples st')) \<le> 200"
proof -
  obtain r where r: "rms samples = Some r" "0 \<le> r" "r \<le> 1"
    using rms_range [OF assms(1,2)] by blast
  show ?thesis
    using r assms(3,4)
    by (simp add: LiveMode_onaudioprocess_def EboLens_onaudioprocess_def Let_def)
qed

theorem volume_range_witness:
  "[1 / 2, - 1] \<noteq> [] \<and> normalized [1 / 2, - 1] \<and> mounted (LiveMode_open None) \<and>
   isActive (EboLens_open []) \<and>
   the (volume (LiveMode_onaudioprocess [1 / 2, - 1] (LiveMode_open None))) \<le> 100 \<and>
   the (volume (EboLens_onaudioprocess [1 / 2, - 1] (EboLens_open []))) \<le> 200"
proof -
  have n: "normalized [1 / 2, - 1]" by (simp add: normalized_def)
  have m: "mounted (LiveMode_open None)" by (simp add: LiveMode_open_def)
  have a: "isActive (EboLens_open [])" by (simp add: EboLens_open_def)
  have ne: "[1 / 2, - 1 :: real] \<noteq> []" by simp
  from volume_range [OF ne n m a] n m a show ?thesis by simp
qed

text \<open>
  C8, as stated, fails on EboLens.tsx: a frame of 4096 full-scale samples sets the volume
  to 200.
\<close>

theorem loud_frame_volume:
  "normalized loud_frame \<and> length loud_frame = 4096 \<and>
   volume (EboLens_onaudioprocess loud_frame (EboLens_open [])) = Some 200 \<and>
   \<not> (200 :: real) \<le> 100"
  by (simp add: loud_frame_def normalized_def list_all_iff EboLens_onaudioprocess_def
      EboLens_open_def rms_replicate_one)

section \<open>Capture\<close>

lemma EboLens_frames_sent:
  "isActive st \<Longrightarrow>
   sent (EboLens_frames frames st) =
     sent st @ map (\<lambda>samples. SendRealtimeInput (createBlob samples)) frames \<and>
   isActive (EboLens_frames frames st)"
proof (induction frames arbitrary: st)
  case Nil
  then show ?case by simp
next
  case (Cons f frames)
  have a: "isActive (EboLens_onaudioprocess f st)"
    using Cons.prems by (simp add: EboLens_onaudioprocess_def)
  have s: "sent (EboLens_onaudioprocess f st) = sent st @ [SendRealtimeInput (createBlob f)]"
    using Cons.prems by (simp add: EboLens_onaudioprocess_def)
  show ?case
    using Cons.IH [OF a] by (simp add: s)
qed

lemma LiveMode_frames_sent:
  "sent (LiveMode_frames frames st) =
     sent st @ map (\<lambda>samples. SendRealtimeInput (createAudioBlob samples)) frames"
proof (induction frames arbitrary: st)
  case Nil
  then show ?case by simp
next
  case (Cons f frames)
  have s: "sent (LiveMode_onaudioprocess f st) = sent st @ [SendRealtimeInput (createAudioBlob f)]"
    by (simp add: LiveMode_onaudioprocess_def Let_def)
  show ?case
    by (simp add: Cons.IH s)
qed

lemma pcm_bytes_nth:
  assumes "i < length samples"
  shows "pcm_bytes samples ! (2 * i) = word_of_nat (unat (ToInt16 (samples ! i * 32768)) mod 256) \<and>
         pcm_bytes samples ! (2 * i + 1) = word_of_nat (unat (ToInt16 (samples ! i * 32768)) div 256)"
  using assms
proof (induction samples arbitrary: i)
  case Nil
  then show ?case by simp
next
  case (Cons x xs)
  have c: "pcm_bytes (x # xs) = int16_bytes (ToInt16 (x * 32768)) @ pcm_bytes xs"
    by (simp add: pcm_bytes_def Uint8Array_of_Int16Array_def)
  show ?case
  proof (cases i)
    case 0
    then show ?thesis by (simp add: c int16_bytes_def)
  next
    case (Suc j)
    with Cons.prems have j: "j < length xs" by simp
    from Cons.IH [OF j] Suc show ?thesis
      by (simp add: c int16_bytes_def)
  qed
qed

lemma pcm_bytes_value:
  assumes "i < length samples"
  shows "int (unat (pcm_bytes samples ! (2 * i)) + 256 * unat (pcm_bytes samples ! (2 * i + 1))) =
           js_trunc (samples ! i * 32768) mod 65536"
proof -
  let ?w = "ToInt16 (samples ! i * 32768)"
  have w: "unat ?w < 65536" using unsigned_less [of ?w] by simp
  then have d: "unat ?w div 256 < 256" by (simp add: div_less_iff_less_mult)
  have 1: "unat (word_of_nat (unat ?w mod 256) :: byte) = unat ?w mod 256"
    by (simp add: unat_of_nat)
  have 2: "unat (word_of_nat (unat ?w div 256) :: byte) = unat ?w div 256"
    using d by (simp add: unat_of_nat)
  have "unat ?w mod 256 + 256 * (unat ?w div 256) = unat ?w" by simp
  moreover have "int (unat ?w) = js_trunc (samples ! i * 32768) mod 65536"
    by (simp add: ToInt16_def uint_word_of_int)
  ultimately show ?thesis
    using pcm_bytes_nth [OF assms] by (simp only: 1 2)
qed


text \<open>
  While the component is active, N frames give N sends of \<open>createBlob\<close> packets in the
  order of the frames. Each packet is tagged \<open>audio/pcm;rate=16000\<close>; its data decodes
  (\<open>atob\<close>) to a payload of twice as many bytes as the frame has samples; and the two bytes
  of sample \<open>i\<close>, low byte first, hold the sample times 32768, truncated towards zero and
  reduced modulo 65536.
\<close>

lemma capture_pipeline_packets:
  assumes "isActive st" and "i < length samples"
  shows "sent (EboLens_frames frames st) =
           sent st @ map (\<lambda>samples. SendRealtimeInput (createBlob samples)) frames \<and>
         length (map (\<lambda>samples. SendRealtimeInput (createBlob samples)) frames) = length frames \<and>
         mimeType (createBlob samples) = ''audio/pcm;rate=16000'' \<and>
         atob (data (createBlob samples)) = Inr (map (\<lambda>b. char_of (unat b)) (pcm_bytes samples)) \<and>
         length (pcm_bytes samples) = 2 * length samples \<and>
         int (unat (pcm_bytes samples ! (2 * i)) + 256 * unat (pcm_bytes samples ! (2 * i + 1))) =
           js_trunc (samples ! i * 32768) mod 65536"
proof -
  have 1: "sent (EboLens_frames frames st) =
           sent st @ map (\<lambda>samples. SendRealtimeInput (createBlob samples)) frames"
    using EboLens_frames_sent [OF assms(1)] by blast
  have 2: "mimeType (createBlob samples) = ''audio/pcm;rate=16000''"
    by (simp add: createBlob_def)
  have 3: "atob (data (createBlob samples)) = Inr (map (\<lambda>b. char_of (unat b)) (pcm_bytes samples))"
    by (simp add: createBlob_def atob_encode pcm_bytes_def)
  from 1 2 3 length_pcm_bytes [of samples] pcm_bytes_value [OF assms(2)] show ?thesis
    by simp
qed

lemma capture_pipeline_packets_example:
  "isActive (EboLens_open []) \<and> (0 :: nat) < length [- 1, 1 / 4 :: real] \<and>
   sent (EboLens_frames three_frames (EboLens_open [])) =
     [SendRealtimeInput (createBlob [0, 1 / 2]), SendRealtimeInput (createBlob [- 1, 1 / 4]),
      SendRealtimeInput (createBlob [1 / 32768, - 1 / 2])] \<and>
   length (pcm_bytes [- 1, 1 / 4]) = 4 \<and>
   int (unat (pcm_bytes [- 1, 1 / 4] ! (2 * 0)) + 256 * unat (pcm_bytes [- 1, 1 / 4] ! (2 * 0 + 1))) =
     32768"
proof -
  have a: "isActive (EboLens_open [])" by (simp add: EboLens_open_def)
  have i: "(0 :: nat) < length [- 1, 1 / 4 :: real]" by simp
  have s: "sent (EboLens_open []) = []" by (simp add: EboLens_open_def)
  from capture_pipeline_packets [OF a i, of three_frames] a i show ?thesis
    by (simp add: s three_frames_def js_trunc_def)
qed

section \<open>Full scale, and calls without arguments\<close>

lemma pcm_sample_truncated:
  assumes "- 1 \<le> x" and "x < 1"
  shows "sint (ToInt16 (x * 32768)) = (if 0 \<le> x then \<lfloor>x * 32768\<rfloor> else \<lceil>x * 32768\<rceil>)"
  using ToInt16_in_range [OF assms] by (simp add: js_trunc_def zero_le_mult_iff)

lemma pcm_sample_examples:
  "sint (ToInt16 (3 / 10 * 32768)) = 9830 \<and> sint (ToInt16 (- (3 / 10) * 32768)) = - 9830"
  by (simp add: ToInt16_def js_trunc_def)

lemma ToInt16_full_scale: "ToInt16 (1 * 32768) = ToInt16 (- 1 * 32768)"
proof -
  have "(word_of_int 32768 :: int16) = word_of_int (- 32768)"
    by (simp add: word_of_int_eq_iff take_bit_eq_mod)
  then show ?thesis
    by (simp add: ToInt16_def js_trunc_def)
qed

lemma createBlob_full_scale: "createBlob (replicate n 1) = createBlob (replicate n (- 1))"
  by (simp only: createBlob_def map_replicate ToInt16_full_scale)

text \<open>
  C5 fails on the code at a sample of 1.0, inside the claimed range: multiplying by 32768
  and truncating gives 32768, but the packet holds the bytes 00 80, the 16-bit signed
  integer -32768, the same payload as for the sample -1.0. A frame at positive full scale
  is sent as the packet of the frame at negative full scale. The count, order and tag of
  the packets and the payload length are as claimed (\<open>capture_pipeline_packets\<close>), and a
  sample from -1 up to, but not including, 1 is stored as its product with 32768
  truncated towards zero (\<open>pcm_sample_truncated\<close>).
\<close>

theorem full_scale_frame_payload:
  "map (\<lambda>x. sint (ToInt16 (x * 32768))) [1] = [- 32768] \<and>
   \<lfloor>(1 :: real) * 32768\<rfloor> = 32768 \<and>
   map unat (pcm_bytes [1]) = [0, 128] \<and>
   pcm_bytes [1] = pcm_bytes [- 1] \<and>
   sent (EboLens_onaudioprocess full_scale_frame (EboLens_open [])) =
     [SendRealtimeInput (createBlob (replicate 4096 (- 1)))]"
proof -
  have 1: "map (\<lambda>x. sint (ToInt16 (x * 32768))) [1] = [- 32768]"
    by (simp add: ToInt16_def js_trunc_def)
  have 2: "\<lfloor>(1 :: real) * 32768\<rfloor> = 32768"
    by simp
  have 3: "map unat (pcm_bytes [1]) = [0, 128]"
    by (simp add: pcm_bytes_def Uint8Array_of_Int16Array_def int16_bytes_def ToInt16_def
        js_trunc_def)
  have 4: "pcm_bytes [1] = pcm_bytes [- 1]"
    by (simp only: pcm_bytes_def list.map ToInt16_full_scale)
  have 5: "sent (EboLens_onaudioprocess full_scale_frame (EboLens_open [])) =
      [SendRealtimeInput (createBlob (replicate 4096 (- 1)))]"
    by (simp add: EboLens_onaudioprocess_def EboLens_open_def full_scale_frame_def
        createBlob_full_scale)
  from 1 2 3 4 5 show ?thesis by blast
qed

text \<open>
  C10 fails on the code for a \<open>startNavigation\<close> call without \<open>args\<close>: reading
  \<open>args.destination\<close> throws, so no navigation state is set, neither the defaults nor the
  constant \<open>eta\<close>. For a call that carries an argument object the defaults are as claimed
  (\<open>startNavigation_defaults\<close>).
\<close>

theorem startNavigation_without_args_faults:
  "fst (LiveMode_functionCall navigate_without_args (LiveMode_open None)) = Some TypeError \<and>
   navData (snd (LiveMode_functionCall navigate_without_args (LiveMode_open None))) = None \<and>
   fst (LiveMode_onmessage 0 (tool_message [navigate_without_args]) (LiveMode_open None)) =
     Some TypeError \<and>
   navData (snd (LiveMode_onmessage 0 (tool_message [navigate_without_args]) (LiveMode_open None))) =
     None"
  by (simp add: navigate_without_args_def call_def tool_message_def LiveMode_functionCall_def
      LiveMode_onmessage_def LiveMode_toolCall_def LiveMode_open_def)

end
